theory Spec2Isabelle
  imports Main "HOL-Library.Word" "HOL-Library.Signed_Division"
begin

unbundle bit_operations_syntax

section \<open>The operating system seen by main.cc\<close>

text \<open>
  main.cc talks to the file system through \<open>open\<close>, \<open>fstat\<close>, \<open>read\<close>, \<open>write\<close>,
  \<open>close\<close>, \<open>fsync\<close>, \<open>remove\<close> and \<open>rename\<close>, and to its caller through two JavaScript
  functions. The model keeps a table of regular files indexed by path, a table of open
  descriptors, \<open>errno\<close>, and a log of every system call issued and every callback invoked,
  in program order.

  Assumptions of the model, all about the platform and none about main.cc:
  \<^item> regular files only, one path per file (no links); \<open>st_mode\<close> is the permission bits;
  \<^item> \<open>open\<close>, \<open>fstat\<close>, \<open>read\<close>, \<open>write\<close> and \<open>rename\<close> may fail at any call: the
    environment holds a schedule \<open>faults\<close> that says, for the n-th such call, whether it
    fails and with which \<open>errno\<close>; a \<open>write\<close> that does not fail accepts at most
    \<open>wlimit\<close> bytes at that call (possibly none);
  \<^item> \<open>close\<close>, \<open>fsync\<close> and \<open>remove\<close>, whose results main.cc never looks at, do what
    their manual page says on their argument and are not in the schedule;
  \<^item> a \<open>read\<close> that does not fail returns every byte available up to the count asked for;
  \<^item> the JavaScript callbacks are sinks: they do not touch the file system;
  \<^item> \<open>ssize_t\<close> values are integers (a file has fewer than \<open>2^63\<close> bytes) and the
    conversion to \<open>double\<close> of a progress value is exact.
\<close>

type_synonym path = string
type_synonym byte = "8 word"
type_synonym mode_t = "32 word"

record regfile =
  content :: "byte list"
  mode :: mode_t

datatype jsval = JNull | JBool bool | JNum int | JStr string | JFun nat | JOther

datatype syscall =
    Open path
  | Fstat int
  | Read int
  | Write int nat
  | Close int
  | Fsync int
  | Remove path
  | Rename path path

datatype event = Sys syscall | Call nat "jsval list"

record env =
  faults :: "nat \<Rightarrow> nat option"
  wlimit :: "nat \<Rightarrow> nat"
  devs :: "path \<Rightarrow> nat"
  umask :: mode_t
  strerror :: "nat \<Rightarrow> string"

record world =
  fs :: "path \<rightharpoonup> regfile"
  fds :: "int \<rightharpoonup> path \<times> nat"
  nfd :: nat
  errno :: nat
  clock :: nat
  trace :: "event list"

definition ENOENT :: nat where "ENOENT = 2"
definition EBADF :: nat where "EBADF = 9"
definition EXDEV :: nat where "EXDEV = 18"

definition issue :: "syscall \<Rightarrow> world \<Rightarrow> world" where
  "issue c w = w\<lparr>trace := trace w @ [Sys c]\<rparr>"

definition tick :: "syscall \<Rightarrow> world \<Rightarrow> world" where
  "tick c w = (issue c w)\<lparr>clock := Suc (clock w)\<rparr>"

definition failing :: "nat \<Rightarrow> world \<Rightarrow> world" where
  "failing err w = w\<lparr>errno := err\<rparr>"

text \<open>\<open>open(path, O_RDONLY | O_BINARY)\<close>\<close>

definition open_rdonly :: "env \<Rightarrow> world \<Rightarrow> path \<Rightarrow> int \<times> world" where
  "open_rdonly e w p =
     (let w1 = tick (Open p) w in
      case faults e (clock w) of
        Some err \<Rightarrow> (- 1, failing err w1)
      | None \<Rightarrow>
          (case fs w p of
             None \<Rightarrow> (- 1, failing ENOENT w1)
           | Some f \<Rightarrow>
               (int (nfd w),
                w1\<lparr>fds := (fds w)(int (nfd w) \<mapsto> (p, 0)), nfd := Suc (nfd w)\<rparr>)))"

text \<open>
  \<open>open(path, O_WRONLY | O_CREAT | O_TRUNC | O_BINARY, m)\<close>: a file that exists is
  emptied and keeps its mode; a missing one is created empty with the bits of \<open>m\<close> that
  the process's umask lets through.
\<close>

definition open_creat_trunc :: "env \<Rightarrow> world \<Rightarrow> path \<Rightarrow> mode_t \<Rightarrow> int \<times> world" where
  "open_creat_trunc e w p m =
     (let w1 = tick (Open p) w in
      case faults e (clock w) of
        Some err \<Rightarrow> (- 1, failing err w1)
      | None \<Rightarrow>
          (let f = (case fs w p of
                      None \<Rightarrow> \<lparr>content = [], mode = m AND NOT (umask e)\<rparr>
                    | Some g \<Rightarrow> g\<lparr>content := []\<rparr>)
           in (int (nfd w),
               w1\<lparr>fs := (fs w)(p \<mapsto> f),
                  fds := (fds w)(int (nfd w) \<mapsto> (p, 0)),
                  nfd := Suc (nfd w)\<rparr>)))"

text \<open>The open file behind a descriptor, when there is one.\<close>

definition behind :: "world \<Rightarrow> int \<Rightarrow> (path \<times> nat \<times> regfile) option" where
  "behind w fd =
     (case fds w fd of
        None \<Rightarrow> None
      | Some (p, off) \<Rightarrow> (case fs w p of None \<Rightarrow> None | Some f \<Rightarrow> Some (p, off, f)))"

record stat =
  st_size :: int
  st_mode :: mode_t
  st_dev :: nat

definition sys_fstat :: "env \<Rightarrow> world \<Rightarrow> int \<Rightarrow> int \<times> stat \<times> world" where
  "sys_fstat e w fd =
     (let w1 = tick (Fstat fd) w; none = \<lparr>st_size = 0, st_mode = 0, st_dev = 0\<rparr> in
      case faults e (clock w) of
        Some err \<Rightarrow> (- 1, none, failing err w1)
      | None \<Rightarrow>
          (case behind w fd of
             None \<Rightarrow> (- 1, none, failing EBADF w1)
           | Some (p, off, f) \<Rightarrow>
               (0, \<lparr>st_size = int (length (content f)), st_mode = mode f, st_dev = devs e p\<rparr>,
                w1)))"

text \<open>\<open>read(fd, buffer, count)\<close>: the result and the bytes now at the front of the buffer.\<close>

definition sys_read :: "env \<Rightarrow> world \<Rightarrow> int \<Rightarrow> nat \<Rightarrow> int \<times> byte list \<times> world" where
  "sys_read e w fd count =
     (let w1 = tick (Read fd) w in
      case faults e (clock w) of
        Some err \<Rightarrow> (- 1, [], failing err w1)
      | None \<Rightarrow>
          (case behind w fd of
             None \<Rightarrow> (- 1, [], failing EBADF w1)
           | Some (p, off, f) \<Rightarrow>
               (let data = take count (drop off (content f)) in
                (int (length data), data,
                 w1\<lparr>fds := (fds w)(fd \<mapsto> (p, off + length data))\<rparr>))))"

text \<open>
  Bytes \<open>data\<close> stored at offset \<open>off\<close> of a file's content; a gap before them reads
  as zeros, and storing no bytes changes nothing.
\<close>

definition store_at :: "nat \<Rightarrow> byte list \<Rightarrow> byte list \<Rightarrow> byte list" where
  "store_at off data c =
     (if data = [] then c
      else take off c @ replicate (off - length c) 0 @ data @ drop (off + length data) c)"

text \<open>\<open>write(fd, data, datalen)\<close>, the block \<open>data\<close> being \<open>datalen\<close> bytes long.\<close>

definition sys_write :: "env \<Rightarrow> world \<Rightarrow> int \<Rightarrow> byte list \<Rightarrow> int \<times> world" where
  "sys_write e w fd data =
     (let w1 = tick (Write fd (length data)) w in
      case faults e (clock w) of
        Some err \<Rightarrow> (- 1, failing err w1)
      | None \<Rightarrow>
          (case behind w fd of
             None \<Rightarrow> (- 1, failing EBADF w1)
           | Some (p, off, f) \<Rightarrow>
               (let n = min (wlimit e (clock w)) (length data) in
                (int n,
                 w1\<lparr>fs := (fs w)(p \<mapsto> f\<lparr>content := store_at off (take n data) (content f)\<rparr>),
                    fds := (fds w)(fd \<mapsto> (p, off + n))\<rparr>))))"

definition sys_close :: "world \<Rightarrow> int \<Rightarrow> world" where
  "sys_close w fd = (issue (Close fd) w)\<lparr>fds := (fds w)(fd := None)\<rparr>"

definition sys_fsync :: "world \<Rightarrow> int \<Rightarrow> world" where
  "sys_fsync w fd = issue (Fsync fd) w"

definition sys_remove :: "world \<Rightarrow> path \<Rightarrow> world" where
  "sys_remove w p =
     (let w1 = issue (Remove p) w in
      case fs w p of
        None \<Rightarrow> failing ENOENT w1
      | Some f \<Rightarrow> w1\<lparr>fs := (fs w)(p := None)\<rparr>)"

definition sys_rename :: "env \<Rightarrow> world \<Rightarrow> path \<Rightarrow> path \<Rightarrow> int \<times> world" where
  "sys_rename e w old new =
     (let w1 = tick (Rename old new) w in
      case faults e (clock w) of
        Some err \<Rightarrow> (- 1, failing err w1)
      | None \<Rightarrow>
          (case fs w old of
             None \<Rightarrow> (- 1, failing ENOENT w1)
           | Some f \<Rightarrow>
               if devs e old \<noteq> devs e new then (- 1, failing EXDEV w1)
               else (0, w1\<lparr>fs := (fs w)(old := None, new \<mapsto> f)\<rparr>)))"

section \<open>main.cc\<close>

subsection \<open>Args\<close>

record Args =
  Source :: string
  Destination :: string
  ProgressCallback :: nat
  ResultCallback :: nat
  UpdateProgress :: bool

fun IsString :: "jsval \<Rightarrow> bool" where
  "IsString (JStr s) = True"
| "IsString v = False"

fun IsFunction :: "jsval \<Rightarrow> bool" where
  "IsFunction (JFun f) = True"
| "IsFunction v = False"

fun As_Function :: "jsval \<Rightarrow> nat" where
  "As_Function (JFun f) = f"
| "As_Function v = 0"

text \<open>
  \<open>get\<close>: the string of a value, or the TypeError it throws.
\<close>

fun get :: "jsval \<Rightarrow> string + string" where
  "get (JStr s) =
     (if length s \<le> 0 then Inl ''arg must be a non-empty string'' else Inr s)"
| "get v = Inl ''arg must be a string''"

text \<open>
  The constructor of \<open>Args\<close>. \<open>Inl\<close> is the exception it leaves pending. What the two
  methods would do after that, on an \<open>Args\<close> whose fields were never assigned, is not
  modelled: the model of a call ends at the throw.
\<close>

definition Args_ctor :: "jsval list \<Rightarrow> string + Args" where
  "Args_ctor args =
     (if length args < 3 then Inl ''Not enough arguments''
      else if \<not> IsString (args ! 0) then Inl ''First argument is not a path''
      else if \<not> IsString (args ! 1) then Inl ''Second argument is not a path''
      else if \<not> IsFunction (args ! 2) then Inl ''Missing result callback''
      else if length args > 3 \<and> \<not> IsFunction (args ! 3) then Inl ''Unknown arguments''
      else
        (let up = (length args > 3) in
         case get (args ! 0) of
           Inl x \<Rightarrow> Inl x
         | Inr src \<Rightarrow>
             (case get (args ! 1) of
                Inl x \<Rightarrow> Inl x
              | Inr dst \<Rightarrow>
                  Inr \<lparr>Source = src, Destination = dst,
                       ProgressCallback = As_Function (args ! 2),
                       ResultCallback = As_Function (if up then args ! 3 else args ! 2),
                       UpdateProgress = up\<rparr>)))"

subsection \<open>The notification helpers\<close>

definition SendProgressUpdate :: "Args \<Rightarrow> int \<Rightarrow> int \<Rightarrow> world \<Rightarrow> world" where
  "SendProgressUpdate args completed total' w =
     (if UpdateProgress args
      then w\<lparr>trace := trace w @ [Call (ProgressCallback args) [JNum completed, JNum total']]\<rparr>
      else w)"

definition SendComplete :: "Args \<Rightarrow> world \<Rightarrow> world" where
  "SendComplete args w =
     w\<lparr>trace := trace w @ [Call (ResultCallback args) [JNull, JBool True]]\<rparr>"

definition SendError :: "Args \<Rightarrow> string \<Rightarrow> world \<Rightarrow> world" where
  "SendError args errorText w =
     w\<lparr>trace := trace w @ [Call (ResultCallback args) [JStr errorText, JBool False]]\<rparr>"

subsection \<open>doWrite and Copy\<close>

text \<open>
  \<open>doWrite\<close> calls itself on the tail that a short write left. Nothing bounds the
  recursion, so the model is a partial function: \<open>None\<close> is a call that never returns.
\<close>

partial_function (option) doWrite :: "env \<Rightarrow> world \<Rightarrow> int \<Rightarrow> byte list \<Rightarrow> (int \<times> world) option" where
  "doWrite e w fd data =
     (case sys_write e w fd data of
        (written, w1) \<Rightarrow>
          if written = - 1 then Some (- 1, w1)
          else if written < int (length data)
          then doWrite e w1 fd (drop (nat written) data)
          else Some (written, w1))"

definition BUFFER_SIZE :: nat where "BUFFER_SIZE = 16384"

text \<open>
  The \<open>while\<close> loop of \<open>Copy\<close> with the test that follows it. The flag of the result
  says whether control left for the label \<open>copyByFdError\<close>. \<open>progress\<close> and
  \<open>sinceLastUpdate\<close> are the loop's two counters.
\<close>

partial_function (option) Copy_loop ::
  "env \<Rightarrow> Args \<Rightarrow> int \<Rightarrow> int \<Rightarrow> int \<Rightarrow> world \<Rightarrow> int \<Rightarrow> int \<Rightarrow> (bool \<times> world) option" where
  "Copy_loop e args fd_in fd_out inputSize w progress sinceLastUpdate =
     (case sys_read e w fd_in BUFFER_SIZE of
        (bytes_read, buffer, w1) \<Rightarrow>
          if bytes_read > 0 then
            Option.bind (doWrite e w1 fd_out buffer)
              (\<lambda>(written, w2).
                 if written = - 1 then Some (True, w2)
                 else if sinceLastUpdate + bytes_read > inputSize sdiv 100
                 then Copy_loop e args fd_in fd_out inputSize
                        (SendProgressUpdate args (progress + bytes_read) inputSize w2)
                        (progress + bytes_read) 0
                 else Copy_loop e args fd_in fd_out inputSize w2
                        (progress + bytes_read) (sinceLastUpdate + bytes_read))
          else Some (bytes_read = - 1, w1))"

definition copyByFdError :: "env \<Rightarrow> Args \<Rightarrow> int \<Rightarrow> int \<Rightarrow> world \<Rightarrow> world" where
  "copyByFdError e args fd_in fd_out w =
     (let w1 = sys_close w fd_in;
          w2 = sys_close w1 fd_out;
          w3 = sys_remove w2 (Destination args)
      in SendError args (strerror e (errno w3)) w3)"

definition Copy ::
  "env \<Rightarrow> world \<Rightarrow> int \<Rightarrow> int \<Rightarrow> int \<Rightarrow> Args \<Rightarrow> bool \<Rightarrow> world option" where
  "Copy e w fd_in fd_out inputSize args removeWhenDone =
     Option.bind (Copy_loop e args fd_in fd_out inputSize w 0 0)
       (\<lambda>(error, w1).
          if error then Some (copyByFdError e args fd_in fd_out w1)
          else
            (let w2 = SendProgressUpdate args inputSize inputSize w1;
                 w3 = sys_close w2 fd_in;
                 w4 = sys_fsync w3 fd_out;
                 w5 = sys_close w4 fd_out;
                 w6 = (if removeWhenDone then sys_remove w5 (Source args) else w5)
             in Some (SendComplete args w6)))"

subsection \<open>The two methods\<close>

text \<open>The labels \<open>copyByPathError\<close> and \<open>moveError\<close> hold the same two statements.\<close>

definition copyByPathError :: "env \<Rightarrow> Args \<Rightarrow> world \<Rightarrow> world" where
  "copyByPathError e args w =
     (let w1 = sys_remove w (Destination args)
      in SendError args (strerror e (errno w1)) w1)"

definition moveError :: "env \<Rightarrow> Args \<Rightarrow> world \<Rightarrow> world" where
  "moveError e args w =
     (let w1 = sys_remove w (Destination args)
      in SendError args (strerror e (errno w1)) w1)"

text \<open>The body of \<open>NAN_METHOD(Copy)\<close> once \<open>Args\<close> is built.\<close>

definition Copy_body :: "env \<Rightarrow> world \<Rightarrow> Args \<Rightarrow> world option" where
  "Copy_body e w args =
     (case open_rdonly e w (Source args) of
        (in_fd, w1) \<Rightarrow>
          if in_fd < 0 then Some (copyByPathError e args w1)
          else
            (case sys_fstat e w1 in_fd of
               (rc, st, w2) \<Rightarrow>
                 if rc \<noteq> 0 then Some (copyByPathError e args (sys_close w2 in_fd))
                 else
                   (case open_creat_trunc e w2 (Destination args) (st_mode st) of
                      (out_fd, w3) \<Rightarrow>
                        if out_fd < 0 then Some (copyByPathError e args (sys_close w3 in_fd))
                        else Copy e w3 in_fd out_fd (st_size st) args False)))"

text \<open>The body of \<open>NAN_METHOD(Move)\<close> once \<open>Args\<close> is built.\<close>

definition Move_body :: "env \<Rightarrow> world \<Rightarrow> Args \<Rightarrow> world option" where
  "Move_body e w args =
     (case open_rdonly e w (Source args) of
        (in_fd, w1) \<Rightarrow>
          if in_fd < 0 then Some (moveError e args w1)
          else
            (case sys_fstat e w1 in_fd of
               (rc, in_stats, w2) \<Rightarrow>
                 if rc \<noteq> 0 then Some (moveError e args (sys_close w2 in_fd))
                 else
                   (case open_creat_trunc e w2 (Destination args) (st_mode in_stats) of
                      (out_fd, w3) \<Rightarrow>
                        if out_fd < 0 then Some (moveError e args (sys_close w3 in_fd))
                        else
                          (case sys_fstat e w3 out_fd of
                             (rc2, out_stats, w4) \<Rightarrow>
                               if rc2 \<noteq> 0
                               then Some (moveError e args (sys_close (sys_close w4 in_fd) out_fd))
                               else
                                 (let inputSize = st_size in_stats in
                                  if st_dev in_stats = st_dev out_stats then
                                    (let w5 = sys_close w4 in_fd;
                                         w6 = sys_close w5 out_fd;
                                         w7 = sys_remove w6 (Destination args);
                                         w8 = snd (sys_rename e w7 (Source args) (Destination args));
                                         w9 = SendProgressUpdate args inputSize inputSize w8
                                     in Some (SendComplete args w9))
                                  else Copy e w4 in_fd out_fd inputSize args True)))))"

text \<open>
  The two methods as JavaScript calls them, on the argument list \<open>info\<close>: \<open>Inl\<close> is the
  exception of \<open>Args\<close>, \<open>Inr\<close> the world when the method returns.
\<close>

definition Copy_method :: "env \<Rightarrow> world \<Rightarrow> jsval list \<Rightarrow> (string + world) option" where
  "Copy_method e w info =
     (case Args_ctor info of
        Inl x \<Rightarrow> Some (Inl x)
      | Inr args \<Rightarrow> map_option Inr (Copy_body e w args))"

definition Move_method :: "env \<Rightarrow> world \<Rightarrow> jsval list \<Rightarrow> (string + world) option" where
  "Move_method e w info =
     (case Args_ctor info of
        Inl x \<Rightarrow> Some (Inl x)
      | Inr args \<Rightarrow> map_option Inr (Move_body e w args))"

section \<open>What a run leaves behind\<close>

text \<open>
  A run of a method from world \<open>w\<close> to world \<open>w'\<close> is observed through the events it
  added to the log and through the file table.
\<close>

definition emitted :: "world \<Rightarrow> world \<Rightarrow> event list" where
  "emitted w w' = drop (length (trace w)) (trace w')"

text \<open>The system calls that open, inspect, read, write, flush or close, and no other.\<close>

fun is_io :: "event \<Rightarrow> bool" where
  "is_io (Sys (Remove p)) = False"
| "is_io (Sys (Rename p q)) = False"
| "is_io (Sys c) = True"
| "is_io (Call f vs) = False"

fun is_write :: "event \<Rightarrow> bool" where
  "is_write (Sys (Write fd n)) = True"
| "is_write ev = False"

text \<open>The two shapes of a completion call and the shape of a progress call.\<close>

definition success_event :: "Args \<Rightarrow> event" where
  "success_event args = Call (ResultCallback args) [JNull, JBool True]"

definition failure_event :: "Args \<Rightarrow> string \<Rightarrow> event" where
  "failure_event args errorText = Call (ResultCallback args) [JStr errorText, JBool False]"

definition progress_event :: "Args \<Rightarrow> int \<Rightarrow> int \<Rightarrow> event" where
  "progress_event args completed total' =
     Call (ProgressCallback args) [JNum completed, JNum total']"

fun is_completion :: "event \<Rightarrow> bool" where
  "is_completion (Call f [JNull, JBool True]) = True"
| "is_completion (Call f [JStr t, JBool False]) = True"
| "is_completion ev = False"

definition completions :: "event list \<Rightarrow> event list" where
  "completions evs = filter is_completion evs"

fun progress_of :: "event \<Rightarrow> (int \<times> int) list" where
  "progress_of (Call f [JNum c, JNum t]) = [(c, t)]"
| "progress_of ev = []"

definition progress_calls :: "event list \<Rightarrow> (int \<times> int) list" where
  "progress_calls evs = concat (map progress_of evs)"

definition signals_success :: "Args \<Rightarrow> world \<Rightarrow> world \<Rightarrow> bool" where
  "signals_success args w w' \<longleftrightarrow> success_event args \<in> set (emitted w w')"

definition signals_failure :: "Args \<Rightarrow> world \<Rightarrow> world \<Rightarrow> bool" where
  "signals_failure args w w' \<longleftrightarrow> (\<exists>t. failure_event args t \<in> set (emitted w w'))"

text \<open>
  A write primitive makes progress when every call that does not fail accepts at least
  one byte.
\<close>

definition write_progress :: "env \<Rightarrow> bool" where
  "write_progress e \<longleftrightarrow> (\<forall>k. faults e k = None \<longrightarrow> 0 < wlimit e k)"

subsection \<open>Notions used in the proofs\<close>

text \<open>
  Events that are such system calls or, when progress is wanted, progress calls with
  total \<open>N\<close>; and progress values that never decrease and stay between \<open>lo\<close> and \<open>N\<close>.
\<close>

definition quiet :: "Args \<Rightarrow> int \<Rightarrow> event list \<Rightarrow> bool" where
  "quiet args N evs \<longleftrightarrow>
     (\<forall>ev \<in> set evs. is_io ev \<or> (UpdateProgress args \<and> (\<exists>c. ev = progress_event args c N)))"

definition rising :: "int \<Rightarrow> int \<Rightarrow> event list \<Rightarrow> bool" where
  "rising lo N evs \<longleftrightarrow>
     sorted (map fst (progress_calls evs)) \<and>
     (\<forall>c \<in> set (map fst (progress_calls evs)). lo \<le> c \<and> c \<le> N)"

text \<open>
  What \<open>doWrite\<close> leaves on a descriptor that is open on a file: some prefix of the
  block stored at the descriptor's offset, all of it unless the result is \<open>-1\<close>.
\<close>

definition stores :: "path \<Rightarrow> env \<Rightarrow> world \<Rightarrow> int \<Rightarrow> byte list \<Rightarrow> int \<times> world \<Rightarrow> bool" where
  "stores p e w fd data y \<longleftrightarrow>
     (\<forall>off f. fds w fd = Some (p, off) \<longrightarrow> fs w p = Some f \<longrightarrow>
          (\<exists>n evs. n \<le> length data \<and> (fst y \<noteq> - 1 \<longrightarrow> n = length data) \<and>
             fs (snd y) = (fs w)(p \<mapsto> f\<lparr>content := store_at off (take n data) (content f)\<rparr>) \<and>
             fds (snd y) = (fds w)(fd \<mapsto> (p, off + n)) \<and>
             trace (snd y) = trace w @ evs \<and> list_all is_write evs))"

text \<open>
  The state of the loop of \<open>Copy\<close> after \<open>k\<close> bytes, when source and destination are
  different files: both descriptors stand at offset \<open>k\<close> and the destination holds the
  first \<open>k\<close> bytes of the source.
\<close>

definition copying ::
  "path \<Rightarrow> path \<Rightarrow> regfile \<Rightarrow> mode_t \<Rightarrow> int \<Rightarrow> int \<Rightarrow> nat \<Rightarrow> world \<Rightarrow> bool" where
  "copying src dst fsrc m fd_in fd_out k w \<longleftrightarrow>
     src \<noteq> dst \<and> fd_in \<noteq> fd_out \<and>
     fds w fd_in = Some (src, k) \<and> fds w fd_out = Some (dst, k) \<and>
     fs w src = Some fsrc \<and>
     fs w dst = Some \<lparr>content = take k (content fsrc), mode = m\<rparr> \<and>
     k \<le> length (content fsrc)"

text \<open>
  The events of a run that ends in the failure report, and of a run of \<open>Copy\<close> that ends
  in the success report: in both, only system calls and progress calls come before the
  closing sequence.
\<close>

definition failure_shape :: "Args \<Rightarrow> event list \<Rightarrow> bool" where
  "failure_shape args evs \<longleftrightarrow>
     (\<exists>N pre t. evs = pre @ [Sys (Remove (Destination args)), failure_event args t] \<and>
        quiet args N pre \<and> rising 0 N pre)"

definition success_shape :: "Args \<Rightarrow> int \<Rightarrow> bool \<Rightarrow> event list \<Rightarrow> bool" where
  "success_shape args N rm evs \<longleftrightarrow>
     (\<exists>pre i out. evs = pre @
          (if UpdateProgress args then [progress_event args N N] else []) @
          [Sys (Close i), Sys (Fsync out), Sys (Close out)] @
          (if rm then [Sys (Remove (Source args))] else []) @
          [success_event args] \<and>
        quiet args N pre \<and> rising 0 N pre)"

text \<open>The events of a move that ends in the rename.\<close>

definition renamed_shape :: "Args \<Rightarrow> int \<Rightarrow> event list \<Rightarrow> bool" where
  "renamed_shape args N evs \<longleftrightarrow>
     (\<exists>i out. evs =
        [Sys (Open (Source args)), Sys (Fstat i), Sys (Open (Destination args)), Sys (Fstat out),
         Sys (Close i), Sys (Close out), Sys (Remove (Destination args)),
         Sys (Rename (Source args) (Destination args))] @
        (if UpdateProgress args then [progress_event args N N] else []) @
        [success_event args])"

text \<open>
  The first three steps that the two method bodies share (open the source, stat it, open
  the destination), with the world at the jump to the error label on the left and the two
  descriptors, the source's metadata and the world on the right.
\<close>

definition prelude :: "env \<Rightarrow> world \<Rightarrow> Args \<Rightarrow> world + int \<times> int \<times> stat \<times> world" where
  "prelude e w args =
     (case open_rdonly e w (Source args) of
        (in_fd, w1) \<Rightarrow>
          if in_fd < 0 then Inl w1
          else
            (case sys_fstat e w1 in_fd of
               (rc, st, w2) \<Rightarrow>
                 if rc \<noteq> 0 then Inl (sys_close w2 in_fd)
                 else
                   (case open_creat_trunc e w2 (Destination args) (st_mode st) of
                      (out_fd, w3) \<Rightarrow>
                        if out_fd < 0 then Inl (sys_close w3 in_fd)
                        else Inr (in_fd, out_fd, st, w3))))"

subsection \<open>Concrete platforms and worlds\<close>

text \<open>
  \<open>env_ok\<close>: nothing fails, a write accepts two bytes at a time, path \<open>x\<close> is on another
  device than the rest, the umask is 022. \<open>env_stall\<close>: the same, but a write accepts no
  byte. \<open>env_fail k\<close>: the same as \<open>env_ok\<close>, but the call number \<open>k\<close> of the schedule
  fails with \<open>EIO\<close>.
\<close>

definition env_ok :: env where
  "env_ok = \<lparr>faults = (\<lambda>k. None), wlimit = (\<lambda>k. 2),
              devs = (\<lambda>p. if p = ''x'' then 1 else 0), umask = 18,
              strerror = (\<lambda>n. if n = 5 then ''Input/output error'' else ''Unknown error'')\<rparr>"

definition env_stall :: env where
  "env_stall = env_ok\<lparr>wlimit := (\<lambda>k. 0)\<rparr>"

definition env_fail :: "nat \<Rightarrow> env" where
  "env_fail k = env_ok\<lparr>faults := (\<lambda>n. if n = k then Some 5 else None)\<rparr>"

text \<open>
  \<open>w_ab\<close>: file \<open>a\<close> of three bytes with mode 644 and file \<open>b\<close> of one byte with mode
  600, no descriptor open. \<open>w_a\<close>: file \<open>a\<close> alone. \<open>w_open\<close>: as \<open>w_ab\<close>, with
  descriptor 3 open on \<open>b\<close> at offset 0.
\<close>

definition w_ab :: world where
  "w_ab = \<lparr>fs = [''a'' \<mapsto> \<lparr>content = [1, 2, 3], mode = 420\<rparr>,
                  ''b'' \<mapsto> \<lparr>content = [9], mode = 384\<rparr>],
           fds = Map.empty, nfd = 3, errno = 0, clock = 0, trace = []\<rparr>"

definition w_a :: world where
  "w_a = \<lparr>fs = [''a'' \<mapsto> \<lparr>content = [1, 2, 3], mode = 420\<rparr>],
          fds = Map.empty, nfd = 3, errno = 0, clock = 0, trace = []\<rparr>"

definition w_open :: world where
  "w_open = w_ab\<lparr>fds := [3 \<mapsto> (''b'', 0)], nfd := 4\<rparr>"

text \<open>
  Requests: copy or move \<open>a\<close> to \<open>b\<close> (same device), \<open>a\<close> to \<open>c\<close> (same device, no
  such file yet) and \<open>a\<close> to \<open>x\<close> (another device), progress wanted, with function 1 as
  the progress callback and function 2 as the result callback; and the argument list of
  the first of them with the two functions in the order of the specification.
\<close>

definition args_ab :: Args where
  "args_ab = \<lparr>Source = ''a'', Destination = ''b'', ProgressCallback = 1, ResultCallback = 2,
              UpdateProgress = True\<rparr>"

definition args_ac :: Args where
  "args_ac = args_ab\<lparr>Destination := ''c''\<rparr>"

definition args_ax :: Args where
  "args_ax = args_ab\<lparr>Destination := ''x''\<rparr>"

definition info_ab :: "jsval list" where
  "info_ab = [JStr ''a'', JStr ''b'', JFun 7, JFun 8]"

text \<open>
  Three worlds that runs from \<open>w_ab\<close> end in: after copying \<open>a\<close> to \<open>b\<close> on \<open>env_ok\<close>
  with the callbacks of \<open>args_ab\<close> and of \<open>info_ab\<close>, and after moving \<open>a\<close> to \<open>b\<close>
  on \<open>env_fail 4\<close>, where the call that fails is the rename.
\<close>

definition w_ab_copied :: world where
  "w_ab_copied =
     \<lparr>fs = [''a'' \<mapsto> \<lparr>content = [1, 2, 3], mode = 420\<rparr>,
            ''b'' \<mapsto> \<lparr>content = [1, 2, 3], mode = 384\<rparr>],
      fds = Map.empty, nfd = 5, errno = 0, clock = 7,
      trace = [Sys (Open ''a''), Sys (Fstat 3), Sys (Open ''b''), Sys (Read 3),
               Sys (Write 4 3), Sys (Write 4 1), Call 1 [JNum 3, JNum 3], Sys (Read 3),
               Call 1 [JNum 3, JNum 3], Sys (Close 3), Sys (Fsync 4), Sys (Close 4),
               Call 2 [JNull, JBool True]]\<rparr>"

definition w_ab_copied_info :: world where
  "w_ab_copied_info =
     w_ab_copied\<lparr>trace :=
              [Sys (Open ''a''), Sys (Fstat 3), Sys (Open ''b''), Sys (Read 3),
               Sys (Write 4 3), Sys (Write 4 1), Call 7 [JNum 3, JNum 3], Sys (Read 3),
               Call 7 [JNum 3, JNum 3], Sys (Close 3), Sys (Fsync 4), Sys (Close 4),
               Call 8 [JNull, JBool True]]\<rparr>"

definition w_ab_lost :: world where
  "w_ab_lost =
     \<lparr>fs = [''a'' \<mapsto> \<lparr>content = [1, 2, 3], mode = 420\<rparr>],
      fds = Map.empty, nfd = 5, errno = 5, clock = 5,
      trace = [Sys (Open ''a''), Sys (Fstat 3), Sys (Open ''b''), Sys (Fstat 4),
               Sys (Close 3), Sys (Close 4), Sys (Remove ''b''), Sys (Rename ''a'' ''b''),
               Call 1 [JNum 3, JNum 3], Call 2 [JNull, JBool True]]\<rparr>"

section \<open>Proofs\<close>

subsection \<open>write and doWrite\<close>

lemma store_at_end: "store_at (length c) data c = c @ data"
  by (simp add: store_at_def)

lemma store_at_Nil [simp]: "store_at off [] c = c"
  by (simp add: store_at_def)

lemma store_at_behind:
  assumes "length A = off" and "ys \<noteq> []"
  shows "store_at (off + length xs) ys (A @ xs @ B) = A @ xs @ ys @ drop (length ys) B"
  using assms by (simp add: store_at_def)

lemma store_at_append:
  "store_at off (xs @ ys) c = store_at (off + length xs) ys (store_at off xs c)"
proof (cases "xs = [] \<or> ys = []")
  case True
  then show ?thesis by auto
next
  case False
  define A where "A = take off c @ replicate (off - length c) 0"
  have lenA: "length A = off" by (simp add: A_def)
  have c1: "store_at off xs c = A @ xs @ drop (off + length xs) c"
    using False by (simp add: store_at_def A_def)
  have "store_at (off + length xs) ys (store_at off xs c)
      = A @ xs @ ys @ drop (length ys) (drop (off + length xs) c)"
    unfolding c1 using False by (intro store_at_behind[OF lenA]) simp
  also have "\<dots> = A @ (xs @ ys) @ drop (off + length (xs @ ys)) c"
    by (simp add: add.commute add.left_commute)
  also have "\<dots> = store_at off (xs @ ys) c"
    using False by (simp add: store_at_def A_def)
  finally show ?thesis by simp
qed

lemma sys_write_stores:
  assumes "sys_write e w fd data = (r, w1)"
    and "fds w fd = Some (p, off)" and "fs w p = Some f"
  shows "\<exists>n. n \<le> length data \<and> (r = - 1 \<and> n = 0 \<or> r = int n) \<and>
           fs w1 = (fs w)(p \<mapsto> f\<lparr>content := store_at off (take n data) (content f)\<rparr>) \<and>
           fds w1 = (fds w)(fd \<mapsto> (p, off + n)) \<and>
           trace w1 = trace w @ [Sys (Write fd (length data))]"
proof (cases "faults e (clock w)")
  case None
  let ?n = "min (wlimit e (clock w)) (length data)"
  from assms None have "r = int ?n"
    and "fs w1 = (fs w)(p \<mapsto> f\<lparr>content := store_at off (take ?n data) (content f)\<rparr>)"
    and "fds w1 = (fds w)(fd \<mapsto> (p, off + ?n))"
    and "trace w1 = trace w @ [Sys (Write fd (length data))]"
    by (auto simp: sys_write_def behind_def tick_def issue_def Let_def)
  then show ?thesis by (intro exI[of _ ?n]) simp
next
  case (Some err)
  with assms have "r = - 1" and "fs w1 = fs w" and "fds w1 = fds w"
    and "trace w1 = trace w @ [Sys (Write fd (length data))]"
    by (auto simp: sys_write_def tick_def issue_def failing_def Let_def)
  with assms(2,3) show ?thesis
    by (intro exI[of _ 0]) (auto simp: map_upd_triv fun_upd_idem)
qed

lemma doWrite_stores:
  assumes "doWrite e w fd data = Some y"
  shows "stores p e w fd data y"
proof (rule doWrite.raw_induct[where P = "stores p", OF _ assms])
  fix rec e w fd data y
  assume ih: "\<And>e w fd data y. rec e w fd data = Some y \<Longrightarrow> stores p e w fd data y"
    and body: "(case sys_write e w fd data of
                 (written, w1) \<Rightarrow>
                   if written = - 1 then Some (- 1, w1)
                   else if written < int (length data)
                        then rec e w1 fd (drop (nat written) data)
                        else Some (written, w1)) = Some y"
  show "stores p e w fd data y"
    unfolding stores_def
  proof (intro allI impI)
    fix off f
    assume fd: "fds w fd = Some (p, off)" and f: "fs w p = Some f"
    obtain written w1 where wr: "sys_write e w fd data = (written, w1)"
      by (cases "sys_write e w fd data")
    from sys_write_stores[OF wr fd f] obtain n1 where n1: "n1 \<le> length data"
      "written = - 1 \<and> n1 = 0 \<or> written = int n1"
      "fs w1 = (fs w)(p \<mapsto> f\<lparr>content := store_at off (take n1 data) (content f)\<rparr>)"
      "fds w1 = (fds w)(fd \<mapsto> (p, off + n1))"
      "trace w1 = trace w @ [Sys (Write fd (length data))]"
      by (elim exE conjE) (rule that, assumption+)
    show "\<exists>n evs. n \<le> length data \<and> (fst y \<noteq> - 1 \<longrightarrow> n = length data) \<and>
           fs (snd y) = (fs w)(p \<mapsto> f\<lparr>content := store_at off (take n data) (content f)\<rparr>) \<and>
           fds (snd y) = (fds w)(fd \<mapsto> (p, off + n)) \<and>
           trace (snd y) = trace w @ evs \<and> list_all is_write evs"
    proof (cases "written = - 1")
      case True
      with body wr have y: "y = (- 1, w1)" by simp
      from True n1(2) have "n1 = 0" by auto
      with y n1 show ?thesis
        by (intro exI[of _ 0] exI[of _ "[Sys (Write fd (length data))]"]) simp
    next
      case False
      with n1(2) have w: "written = int n1" by auto
      show ?thesis
      proof (cases "n1 < length data")
        case True
        with body wr w False have rc: "rec e w1 fd (drop n1 data) = Some y" by simp
        let ?f1 = "f\<lparr>content := store_at off (take n1 data) (content f)\<rparr>"
        have fd1: "fds w1 fd = Some (p, off + n1)" using n1 by simp
        have f1: "fs w1 p = Some ?f1" using n1 by simp
        from ih[OF rc, unfolded stores_def, THEN spec, THEN spec, of "off + n1" ?f1] fd1 f1
        have "\<exists>n evs. n \<le> length (drop n1 data) \<and> (fst y \<noteq> - 1 \<longrightarrow> n = length (drop n1 data)) \<and>
           fs (snd y) = (fs w1)(p \<mapsto> ?f1\<lparr>content := store_at (off + n1) (take n (drop n1 data)) (content ?f1)\<rparr>) \<and>
           fds (snd y) = (fds w1)(fd \<mapsto> (p, off + n1 + n)) \<and>
           trace (snd y) = trace w1 @ evs \<and> list_all is_write evs"
          by (rule mp[OF mp])
        then obtain n2 evs where n2:
          "n2 \<le> length (drop n1 data)" "fst y \<noteq> - 1 \<longrightarrow> n2 = length (drop n1 data)"
          "fs (snd y) = (fs w1)(p \<mapsto> ?f1\<lparr>content := store_at (off + n1) (take n2 (drop n1 data)) (content ?f1)\<rparr>)"
          "fds (snd y) = (fds w1)(fd \<mapsto> (p, off + n1 + n2))"
          "trace (snd y) = trace w1 @ evs" "list_all is_write evs"
          by (elim exE conjE) (rule that, assumption+)
        have tk: "take (n1 + n2) data = take n1 data @ take n2 (drop n1 data)"
          by (simp add: take_add)
        have st: "store_at (off + n1) (take n2 (drop n1 data)) (store_at off (take n1 data) (content f))
            = store_at off (take (n1 + n2) data) (content f)"
          unfolding tk using store_at_append[of off "take n1 data" "take n2 (drop n1 data)" "content f"] n1(1)
          by simp
        have a: "n1 + n2 \<le> length data" using n2(1) True by simp
        have b: "fst y \<noteq> - 1 \<longrightarrow> n1 + n2 = length data" using n2(2) True by simp
        have c: "fs (snd y) = (fs w)(p \<mapsto> f\<lparr>content := store_at off (take (n1 + n2) data) (content f)\<rparr>)"
          using n2(3) n1(3) st by simp
        have d: "fds (snd y) = (fds w)(fd \<mapsto> (p, off + (n1 + n2)))"
          using n2(4) n1(4) by (simp add: add.assoc)
        have e: "trace (snd y) = trace w @ (Sys (Write fd (length data)) # evs)"
          using n2(5) n1(5) by simp
        have f: "list_all is_write (Sys (Write fd (length data)) # evs)"
          using n2(6) by simp
        from a b c d e f show ?thesis by (intro exI conjI)
      next
        case False
        with n1(1) have "n1 = length data" by simp
        moreover from body wr w False \<open>written \<noteq> - 1\<close> have "y = (written, w1)" by simp
        ultimately show ?thesis using n1 w
          by (intro exI[of _ "length data"] exI[of _ "[Sys (Write fd (length data))]"]) simp
      qed
    qed
  qed
qed

lemma doWrite_append:
  assumes "doWrite e w fd data = Some (r, w')"
    and "fds w fd = Some (p, length (content f))" and "fs w p = Some f"
  shows "\<exists>n evs. n \<le> length data \<and> (r \<noteq> - 1 \<longrightarrow> n = length data) \<and>
           fs w' = (fs w)(p \<mapsto> f\<lparr>content := content f @ take n data\<rparr>) \<and>
           fds w' = (fds w)(fd \<mapsto> (p, length (content f) + n)) \<and>
           trace w' = trace w @ evs \<and> list_all is_write evs"
  using doWrite_stores[OF assms(1), of p] assms(2,3) by (simp add: stores_def store_at_end)

lemma sys_write_result:
  assumes "sys_write e w fd data = (r, w1)"
  shows "r = - 1 \<or> (faults e (clock w) = None \<and> r = int (min (wlimit e (clock w)) (length data)))"
  using assms
  by (auto simp: sys_write_def Let_def split: option.splits)

lemma doWrite_total:
  assumes "write_progress e"
  shows "\<exists>y. doWrite e w fd data = Some y"
proof (induction "length data" arbitrary: w data rule: less_induct)
  case less
  obtain r w1 where wr: "sys_write e w fd data = (r, w1)"
    by (cases "sys_write e w fd data")
  show ?case
  proof (cases "r = - 1 \<or> \<not> r < int (length data)")
    case True
    then show ?thesis
      by (subst doWrite.simps) (auto simp: wr)
  next
    case False
    with sys_write_result[OF wr]
    have nf: "faults e (clock w) = None" and r: "r = int (min (wlimit e (clock w)) (length data))"
      by auto
    from assms nf have "0 < wlimit e (clock w)" by (simp add: write_progress_def)
    with False r have "0 < nat r" "nat r \<le> length data" by auto
    then have "length (drop (nat r) data) < length data" by simp
    from less[OF this] obtain y where "doWrite e w1 fd (drop (nat r) data) = Some y" by blast
    with False show ?thesis
      by (subst doWrite.simps) (simp add: wr)
  qed
qed

subsection \<open>The loop of Copy\<close>

lemma progress_calls_append [simp]:
  "progress_calls (xs @ ys) = progress_calls xs @ progress_calls ys"
  by (simp add: progress_calls_def)

lemma progress_calls_Nil [simp]: "progress_calls [] = []"
  by (simp add: progress_calls_def)

lemma progress_calls_Sys [simp]: "progress_calls (Sys c # evs) = progress_calls evs"
  by (simp add: progress_calls_def)

lemma progress_calls_progress [simp]:
  "progress_calls (progress_event args c N # evs) = (c, N) # progress_calls evs"
  by (simp add: progress_calls_def progress_event_def)

lemma progress_calls_writes: "list_all is_write evs \<Longrightarrow> progress_calls evs = []"
proof (induction evs)
  case Nil
  show ?case by simp
next
  case (Cons ev evs)
  then obtain fd n where "ev = Sys (Write fd n)"
    by (cases ev rule: is_write.cases) auto
  with Cons show ?case by simp
qed

lemma quiet_append [simp]: "quiet args N (xs @ ys) \<longleftrightarrow> quiet args N xs \<and> quiet args N ys"
  by (auto simp: quiet_def)

lemma quiet_Nil [simp]: "quiet args N []"
  by (simp add: quiet_def)

lemma quiet_io [simp]: "is_io ev \<Longrightarrow> quiet args N (ev # evs) \<longleftrightarrow> quiet args N evs"
  by (simp add: quiet_def)

lemma quiet_progress:
  "UpdateProgress args \<Longrightarrow> quiet args N (progress_event args c N # evs) \<longleftrightarrow> quiet args N evs"
  by (auto simp: quiet_def)

lemma quiet_writes: "list_all is_write evs \<Longrightarrow> quiet args N evs"
proof (induction evs)
  case Nil
  show ?case by simp
next
  case (Cons ev evs)
  then obtain fd n where "ev = Sys (Write fd n)"
    by (cases ev rule: is_write.cases) auto
  with Cons show ?case by simp
qed

lemma rising_no_progress: "progress_calls evs = [] \<Longrightarrow> rising lo N evs"
  by (simp add: rising_def)

lemma rising_weaken: "rising hi N evs \<Longrightarrow> lo \<le> hi \<Longrightarrow> rising lo N evs"
  by (auto simp: rising_def)

lemma rising_step:
  assumes "progress_calls xs = [] \<or> progress_calls xs = [(c, N)]"
    and "lo \<le> c" and "c \<le> N" and "rising c N ys"
  shows "rising lo N (xs @ ys)"
  using assms by (auto simp: rising_def)

lemma SendProgressUpdate_fs [simp]: "fs (SendProgressUpdate args c t w) = fs w"
  by (simp add: SendProgressUpdate_def)

lemma SendProgressUpdate_fds [simp]: "fds (SendProgressUpdate args c t w) = fds w"
  by (simp add: SendProgressUpdate_def)

lemma SendProgressUpdate_trace:
  "trace (SendProgressUpdate args c t w) =
     trace w @ (if UpdateProgress args then [progress_event args c t] else [])"
  by (simp add: SendProgressUpdate_def progress_event_def)

lemma copying_SendProgressUpdate [simp]:
  "copying src dst fsrc m fd_in fd_out k (SendProgressUpdate args c t w) \<longleftrightarrow>
   copying src dst fsrc m fd_in fd_out k w"
  by (simp add: copying_def)

lemma sys_read_copying:
  assumes "copying src dst fsrc m fd_in fd_out k w"
    and "sys_read e w fd_in BUFFER_SIZE = (br, buf, w1)"
  shows "fs w1 = fs w" and "trace w1 = trace w @ [Sys (Read fd_in)]"
    and "br = - 1 \<or>
         (buf = take BUFFER_SIZE (drop k (content fsrc)) \<and> br = int (length buf) \<and>
          fds w1 = (fds w)(fd_in \<mapsto> (src, k + length buf)))"
  using assms
  by (auto simp: copying_def sys_read_def behind_def tick_def issue_def failing_def Let_def
      split: option.splits)

lemma iteration:
  assumes c: "copying src dst fsrc m fd_in fd_out k w"
    and rd: "sys_read e w fd_in BUFFER_SIZE = (br, buf, w1)"
    and pos: "br > 0"
    and dw: "doWrite e w1 fd_out buf = Some (r, w2)"
  shows "\<exists>evs c. trace w2 = trace w @ Sys (Read fd_in) # evs \<and> list_all is_write evs \<and>
           fs w2 = (fs w)(dst \<mapsto> \<lparr>content = c, mode = m\<rparr>) \<and> 0 < length buf \<and>
           br = int (length buf) \<and>
           (r \<noteq> - 1 \<longrightarrow> copying src dst fsrc m fd_in fd_out (k + length buf) w2)"
proof -
  let ?f = "\<lparr>content = take k (content fsrc), mode = m\<rparr>"
  from sys_read_copying[OF c rd] pos
  have fs1: "fs w1 = fs w" and tr1: "trace w1 = trace w @ [Sys (Read fd_in)]"
    and buf: "buf = take BUFFER_SIZE (drop k (content fsrc))" and br: "br = int (length buf)"
    and fds1: "fds w1 = (fds w)(fd_in \<mapsto> (src, k + length buf))"
    by auto
  from c have k: "k \<le> length (content fsrc)" and ne: "src \<noteq> dst" "fd_in \<noteq> fd_out"
    and fsrc: "fs w src = Some fsrc" and fdst: "fs w dst = Some ?f"
    and fdo: "fds w fd_out = Some (dst, k)"
    by (simp_all add: copying_def)
  have fd: "fds w1 fd_out = Some (dst, length (content ?f))"
    using fds1 ne fdo k by simp
  have f: "fs w1 dst = Some ?f" using fs1 fdst by simp
  from doWrite_append[OF dw fd f] obtain n evs where n: "n \<le> length buf"
    "r \<noteq> - 1 \<longrightarrow> n = length buf"
    "fs w2 = (fs w1)(dst \<mapsto> ?f\<lparr>content := content ?f @ take n buf\<rparr>)"
    "fds w2 = (fds w1)(fd_out \<mapsto> (dst, length (content ?f) + n))"
    "trace w2 = trace w1 @ evs" "list_all is_write evs"
    by (elim exE conjE) (rule that, assumption+)
  have len: "k + length buf \<le> length (content fsrc)"
    using buf k by simp
  have tk: "take k (content fsrc) @ buf = take (k + length buf) (content fsrc)"
    unfolding buf using k by (simp add: take_add min_def)
  have a: "trace w2 = trace w @ Sys (Read fd_in) # evs" using n(5) tr1 by simp
  have b: "fs w2 = (fs w)(dst \<mapsto> \<lparr>content = take k (content fsrc) @ take n buf, mode = m\<rparr>)"
    using n(3) fs1 by simp
  have d: "copying src dst fsrc m fd_in fd_out (k + length buf) w2" if "r \<noteq> - 1"
  proof -
    from that n(2) have nn: "n = length buf" by simp
    show ?thesis
      unfolding copying_def
      using ne fsrc b n(4) fds1 k len tk nn by (simp add: fun_upd_twist)
  qed
  from a b d n(6) pos br show ?thesis by auto
qed

lemma Copy_loop_post:
  assumes "copying src dst fsrc m fd_in fd_out k w"
    and "Copy_loop e args fd_in fd_out N w (int k) s = Some (err, w')"
    and "N = int (length (content fsrc))"
  shows "\<exists>c evs. fs w' = (fs w)(dst \<mapsto> \<lparr>content = c, mode = m\<rparr>) \<and>
           (\<not> err \<longrightarrow> c = content fsrc) \<and>
           trace w' = trace w @ evs \<and> quiet args N evs \<and> rising (int k) N evs"
  using assms(1,2)
proof (induction "length (content fsrc) - k" arbitrary: k w s rule: less_induct)
  case less
  note c = less.prems(1)
  obtain br buf w1 where rd: "sys_read e w fd_in BUFFER_SIZE = (br, buf, w1)"
    by (cases "sys_read e w fd_in BUFFER_SIZE")
  from c have k: "k \<le> length (content fsrc)"
    and fdst: "fs w dst = Some \<lparr>content = take k (content fsrc), mode = m\<rparr>"
    by (simp_all add: copying_def)
  note loop = less.prems(2)[unfolded Copy_loop.simps[of e args fd_in fd_out N w "int k" s] rd prod.case]
  show ?case
  proof (cases "br > 0")
    case False
    with loop have res: "err = (br = - 1)" "w' = w1" by simp_all
    from sys_read_copying[OF c rd] False
    have fs1: "fs w1 = fs w" and tr1: "trace w1 = trace w @ [Sys (Read fd_in)]"
      and eof: "br \<noteq> - 1 \<longrightarrow> length (take BUFFER_SIZE (drop k (content fsrc))) = 0"
      by auto
    have "fs w' = (fs w)(dst \<mapsto> \<lparr>content = take k (content fsrc), mode = m\<rparr>)"
      using fs1 res fdst by (simp add: map_upd_triv)
    moreover have "\<not> err \<longrightarrow> take k (content fsrc) = content fsrc"
      using eof res k by (auto simp: BUFFER_SIZE_def)
    moreover have "trace w' = trace w @ [Sys (Read fd_in)]" using tr1 res by simp
    moreover have "quiet args N [Sys (Read fd_in)]" by simp
    moreover have "rising (int k) N [Sys (Read fd_in)]" by (simp add: rising_def)
    ultimately show ?thesis by blast
  next
    case True
    with loop obtain r w2 where dw: "doWrite e w1 fd_out buf = Some (r, w2)"
      and rest: "(if r = - 1 then Some (True, w2)
                  else if s + br > N sdiv 100
                  then Copy_loop e args fd_in fd_out N
                         (SendProgressUpdate args (int k + br) N w2) (int k + br) 0
                  else Copy_loop e args fd_in fd_out N w2 (int k + br) (s + br)) = Some (err, w')"
      by (auto simp: bind_eq_Some_conv)
    from iteration[OF c rd True dw] obtain evs c where it:
      "trace w2 = trace w @ Sys (Read fd_in) # evs" "list_all is_write evs"
      "fs w2 = (fs w)(dst \<mapsto> \<lparr>content = c, mode = m\<rparr>)" "0 < length buf"
      "br = int (length buf)"
      "r \<noteq> - 1 \<longrightarrow> copying src dst fsrc m fd_in fd_out (k + length buf) w2"
      by (elim exE conjE) (rule that, assumption+)
    have q: "quiet args N (Sys (Read fd_in) # evs)" using quiet_writes[OF it(2)] by simp
    have p: "progress_calls (Sys (Read fd_in) # evs) = []"
      using progress_calls_writes[OF it(2)] by simp
    show ?thesis
    proof (cases "r = - 1")
      case True
      with rest have "err" "w' = w2" by simp_all
      with it q p show ?thesis by (auto simp: rising_def)
    next
      case False
      let ?k = "k + length buf"
      from False it have c2: "copying src dst fsrc m fd_in fd_out ?k w2" by simp
      then have k2: "?k \<le> length (content fsrc)" by (simp add: copying_def)
      have dec: "length (content fsrc) - ?k < length (content fsrc) - k"
        using it(4) k2 by linarith
      have ik: "int k + br = int ?k" using it(5) by simp
      define w3 where "w3 = (if s + br > N sdiv 100
                             then SendProgressUpdate args (int ?k) N w2 else w2)"
      define s3 where "s3 = (if s + br > N sdiv 100 then 0 else s + br)"
      from rest False have rec: "Copy_loop e args fd_in fd_out N w3 (int ?k) s3 = Some (err, w')"
        by (simp add: w3_def s3_def ik split: if_splits)
      have c3: "copying src dst fsrc m fd_in fd_out ?k w3" using c2 by (simp add: w3_def)
      from less.hyps[OF dec c3 rec] obtain c' evs' where ih:
        "fs w' = (fs w3)(dst \<mapsto> \<lparr>content = c', mode = m\<rparr>)" "\<not> err \<longrightarrow> c' = content fsrc"
        "trace w' = trace w3 @ evs'" "quiet args N evs'" "rising (int ?k) N evs'"
        by (elim exE conjE) (rule that, assumption+)
      define pre where "pre = Sys (Read fd_in) # evs @
          (if s + br > N sdiv 100 \<and> UpdateProgress args then [progress_event args (int ?k) N] else [])"
      have t3: "trace w3 = trace w @ pre"
        using it(1) by (simp add: w3_def pre_def SendProgressUpdate_trace)
      have f3: "fs w3 = fs w2" by (simp add: w3_def)
      have qp: "quiet args N pre"
        using q by (simp add: pre_def quiet_progress)
      have pp: "progress_calls pre = [] \<or> progress_calls pre = [(int ?k, N)]"
        using p by (simp add: pre_def)
      have r: "rising (int k) N (pre @ evs')"
        using pp ih(5) k2 assms(3) by (intro rising_step[where c = "int ?k"]) simp_all
      have "fs w' = (fs w)(dst \<mapsto> \<lparr>content = c', mode = m\<rparr>)"
        using ih(1) f3 it(3) by simp
      moreover have "trace w' = trace w @ (pre @ evs')" using ih(3) t3 by simp
      moreover have "quiet args N (pre @ evs')" using qp ih(4) by simp
      ultimately show ?thesis using ih(2) r by blast
    qed
  qed
qed

lemma Copy_loop_total:
  assumes "write_progress e" and "copying src dst fsrc m fd_in fd_out k w"
  shows "\<exists>y. Copy_loop e args fd_in fd_out N w p s = Some y"
  using assms(2)
proof (induction "length (content fsrc) - k" arbitrary: k w p s rule: less_induct)
  case less
  note c = less.prems(1)
  obtain br buf w1 where rd: "sys_read e w fd_in BUFFER_SIZE = (br, buf, w1)"
    by (cases "sys_read e w fd_in BUFFER_SIZE")
  show ?case
  proof (cases "br > 0")
    case False
    then show ?thesis by (subst Copy_loop.simps) (simp add: rd)
  next
    case True
    from doWrite_total[OF assms(1)] obtain r w2 where dw: "doWrite e w1 fd_out buf = Some (r, w2)"
      by (metis surj_pair)
    from iteration[OF c rd True dw]
    have pos: "0 < length buf"
      and c2: "r \<noteq> - 1 \<longrightarrow> copying src dst fsrc m fd_in fd_out (k + length buf) w2"
      by auto
    show ?thesis
    proof (cases "r = - 1")
      case True
      with \<open>br > 0\<close> show ?thesis by (subst Copy_loop.simps) (auto simp: rd dw)
    next
      case False
      let ?k = "k + length buf"
      from False c2 have c2': "copying src dst fsrc m fd_in fd_out ?k w2" by simp
      then have "?k \<le> length (content fsrc)" by (simp add: copying_def)
      with pos have dec: "length (content fsrc) - ?k < length (content fsrc) - k" by linarith
      have c3: "copying src dst fsrc m fd_in fd_out ?k (SendProgressUpdate args (p + br) N w2)"
        using c2' by simp
      from less.hyps[OF dec c2'] less.hyps[OF dec c3] False \<open>br > 0\<close>
      show ?thesis by (subst Copy_loop.simps) (simp add: rd dw)
    qed
  qed
qed

lemma Copy_loop_eof:
  assumes "fds w fd_in = Some (p, k)" and "fs w p = Some f" and "length (content f) \<le> k"
  shows "\<exists>w1. Copy_loop e args fd_in fd_out N w pr s = Some (faults e (clock w) \<noteq> None, w1) \<and>
           fs w1 = fs w \<and> trace w1 = trace w @ [Sys (Read fd_in)]"
  using assms
  by (subst Copy_loop.simps)
     (auto simp: sys_read_def behind_def tick_def issue_def failing_def Let_def
       split: option.splits)

subsection \<open>The closing sequences\<close>

lemma emitted_append: "trace w' = trace w @ evs \<Longrightarrow> emitted w w' = evs"
  by (simp add: emitted_def)

lemma sys_close_fs [simp]: "fs (sys_close w fd) = fs w"
  by (simp add: sys_close_def issue_def)

lemma sys_close_trace [simp]: "trace (sys_close w fd) = trace w @ [Sys (Close fd)]"
  by (simp add: sys_close_def issue_def)

lemma sys_fsync_fs [simp]: "fs (sys_fsync w fd) = fs w"
  by (simp add: sys_fsync_def issue_def)

lemma sys_fsync_trace [simp]: "trace (sys_fsync w fd) = trace w @ [Sys (Fsync fd)]"
  by (simp add: sys_fsync_def issue_def)

lemma sys_remove_fs [simp]: "fs (sys_remove w p) = (fs w)(p := None)"
  by (auto simp: sys_remove_def issue_def failing_def Let_def split: option.splits)

lemma sys_remove_trace [simp]: "trace (sys_remove w p) = trace w @ [Sys (Remove p)]"
  by (simp add: sys_remove_def issue_def failing_def Let_def split: option.splits)

lemma SendComplete_fs [simp]: "fs (SendComplete args w) = fs w"
  by (simp add: SendComplete_def)

lemma SendComplete_trace [simp]: "trace (SendComplete args w) = trace w @ [success_event args]"
  by (simp add: SendComplete_def success_event_def)

lemma SendError_fs [simp]: "fs (SendError args t w) = fs w"
  by (simp add: SendError_def)

lemma SendError_trace [simp]: "trace (SendError args t w) = trace w @ [failure_event args t]"
  by (simp add: SendError_def failure_event_def)

lemma copyByFdError_fs: "fs (copyByFdError e args i out w) = (fs w)(Destination args := None)"
  by (simp add: copyByFdError_def Let_def)

lemma copyByFdError_trace:
  "\<exists>t. trace (copyByFdError e args i out w) =
         trace w @ [Sys (Close i), Sys (Close out)] @
         [Sys (Remove (Destination args)), failure_event args t]"
  by (auto simp: copyByFdError_def Let_def)

lemma copyByPathError_fs: "fs (copyByPathError e args w) = (fs w)(Destination args := None)"
  by (simp add: copyByPathError_def Let_def)

lemma copyByPathError_trace:
  "\<exists>t. trace (copyByPathError e args w) =
         trace w @ [Sys (Remove (Destination args)), failure_event args t]"
  by (auto simp: copyByPathError_def Let_def)

lemma moveError_fs: "fs (moveError e args w) = (fs w)(Destination args := None)"
  by (simp add: moveError_def Let_def)

lemma moveError_trace:
  "\<exists>t. trace (moveError e args w) =
         trace w @ [Sys (Remove (Destination args)), failure_event args t]"
  by (auto simp: moveError_def Let_def)

lemma progress_calls_sys: "list_all is_io evs \<Longrightarrow> progress_calls evs = []"
proof (induction evs)
  case Nil
  show ?case by simp
next
  case (Cons ev evs)
  then obtain c where "ev = Sys c" by (cases ev) auto
  with Cons show ?case by simp
qed

lemma quiet_sys: "list_all is_io evs \<Longrightarrow> quiet args N evs"
  by (auto simp: quiet_def list_all_iff)

lemma rising_sys_prefix:
  "list_all is_io xs \<Longrightarrow> rising lo N (xs @ ys) \<longleftrightarrow> rising lo N ys"
  by (simp add: rising_def progress_calls_sys)

lemma rising_sys_suffix:
  "list_all is_io ys \<Longrightarrow> rising lo N (xs @ ys) \<longleftrightarrow> rising lo N xs"
  by (simp add: rising_def progress_calls_sys)

lemma failure_shape_sys_only:
  "list_all is_io pre \<Longrightarrow>
   failure_shape args (pre @ [Sys (Remove (Destination args)), failure_event args t])"
  unfolding failure_shape_def
  by (intro exI[of _ 0] exI[of _ pre] exI[of _ t])
     (simp add: quiet_sys rising_no_progress progress_calls_sys)

lemma failure_shape_prefix:
  assumes "list_all is_io xs" and "failure_shape args evs"
  shows "failure_shape args (xs @ evs)"
proof -
  from assms(2) obtain N pre t where
    evs: "evs = pre @ [Sys (Remove (Destination args)), failure_event args t]"
    and q: "quiet args N pre" and r: "rising 0 N pre"
    unfolding failure_shape_def by blast
  have "xs @ evs = (xs @ pre) @ [Sys (Remove (Destination args)), failure_event args t]"
    using evs by simp
  moreover have "quiet args N (xs @ pre)" using q assms(1) by (simp add: quiet_sys)
  moreover have "rising 0 N (xs @ pre)" using r assms(1) by (simp add: rising_sys_prefix)
  ultimately show ?thesis unfolding failure_shape_def by blast
qed

lemma success_shape_prefix:
  assumes "list_all is_io xs" and "success_shape args N rm evs"
  shows "success_shape args N rm (xs @ evs)"
proof -
  from assms(2) obtain pre i out where
    evs: "evs = pre @ (if UpdateProgress args then [progress_event args N N] else []) @
          [Sys (Close i), Sys (Fsync out), Sys (Close out)] @
          (if rm then [Sys (Remove (Source args))] else []) @ [success_event args]"
    and q: "quiet args N pre" and r: "rising 0 N pre"
    unfolding success_shape_def by blast
  have "xs @ evs = (xs @ pre) @ (if UpdateProgress args then [progress_event args N N] else []) @
          [Sys (Close i), Sys (Fsync out), Sys (Close out)] @
          (if rm then [Sys (Remove (Source args))] else []) @ [success_event args]"
    using evs by simp
  moreover have "quiet args N (xs @ pre)" using q assms(1) by (simp add: quiet_sys)
  moreover have "rising 0 N (xs @ pre)" using r assms(1) by (simp add: rising_sys_prefix)
  ultimately show ?thesis unfolding success_shape_def by blast
qed

subsection \<open>Copy\<close>

lemma Copy_from_loop:
  assumes "Copy e w i out N args rm = Some w'"
  shows "\<exists>err w1. Copy_loop e args i out N w 0 0 = Some (err, w1) \<and>
     (err \<longrightarrow> w' = copyByFdError e args i out w1) \<and>
     (\<not> err \<longrightarrow> fs w' = (if rm then (fs w1)(Source args := None) else fs w1)) \<and>
     (\<not> err \<longrightarrow> trace w' = trace w1 @
           (if UpdateProgress args then [progress_event args N N] else []) @
           [Sys (Close i), Sys (Fsync out), Sys (Close out)] @
           (if rm then [Sys (Remove (Source args))] else []) @ [success_event args])"
proof -
  from assms obtain err w1 where loop: "Copy_loop e args i out N w 0 0 = Some (err, w1)"
    and rest: "(if err then Some (copyByFdError e args i out w1)
       else (let w2 = SendProgressUpdate args N N w1;
                 w3 = sys_close w2 i;
                 w4 = sys_fsync w3 out;
                 w5 = sys_close w4 out;
                 w6 = (if rm then sys_remove w5 (Source args) else w5)
             in Some (SendComplete args w6))) = Some w'"
    by (auto simp: Copy_def bind_eq_Some_conv)
  have "err \<longrightarrow> w' = copyByFdError e args i out w1" using rest by (auto split: if_splits)
  moreover have "\<not> err \<longrightarrow> fs w' = (if rm then (fs w1)(Source args := None) else fs w1)"
    using rest by (auto simp: Let_def split: if_splits)
  moreover have "\<not> err \<longrightarrow> trace w' = trace w1 @
           (if UpdateProgress args then [progress_event args N N] else []) @
           [Sys (Close i), Sys (Fsync out), Sys (Close out)] @
           (if rm then [Sys (Remove (Source args))] else []) @ [success_event args]"
    using rest by (auto simp: Let_def SendProgressUpdate_trace split: if_splits)
  ultimately show ?thesis using loop by blast
qed

lemma Copy_shape:
  assumes run: "Copy e w i out N args rm = Some w'"
    and loop: "\<And>err w1. Copy_loop e args i out N w 0 0 = Some (err, w1) \<Longrightarrow>
       \<exists>c evs. fs w1 = (fs w)(Destination args \<mapsto> \<lparr>content = c, mode = m\<rparr>) \<and>
         (\<not> err \<longrightarrow> c = final) \<and> trace w1 = trace w @ evs \<and>
         quiet args N evs \<and> rising 0 N evs"
  shows "\<exists>evs. trace w' = trace w @ evs \<and>
           (failure_shape args evs \<and> fs w' = (fs w)(Destination args := None) \<or>
            success_shape args N rm evs \<and>
            fs w' = (if rm
                     then (fs w)(Destination args \<mapsto> \<lparr>content = final, mode = m\<rparr>,
                                 Source args := None)
                     else (fs w)(Destination args \<mapsto> \<lparr>content = final, mode = m\<rparr>)))"
proof -
  from Copy_from_loop[OF run] obtain err w1
    where l: "Copy_loop e args i out N w 0 0 = Some (err, w1)"
    and bad: "err \<longrightarrow> w' = copyByFdError e args i out w1"
    and good_fs: "\<not> err \<longrightarrow> fs w' = (if rm then (fs w1)(Source args := None) else fs w1)"
    and good_tr: "\<not> err \<longrightarrow> trace w' = trace w1 @
           (if UpdateProgress args then [progress_event args N N] else []) @
           [Sys (Close i), Sys (Fsync out), Sys (Close out)] @
           (if rm then [Sys (Remove (Source args))] else []) @ [success_event args]"
    by (elim exE conjE) (rule that, assumption+)
  from loop[OF l] obtain c evs where
    f1: "fs w1 = (fs w)(Destination args \<mapsto> \<lparr>content = c, mode = m\<rparr>)"
    and c: "\<not> err \<longrightarrow> c = final" and t1: "trace w1 = trace w @ evs"
    and q: "quiet args N evs" and r: "rising 0 N evs"
    by (elim exE conjE) (rule that, assumption+)
  show ?thesis
  proof (cases err)
    case True
    from copyByFdError_trace[of e args i out w1] obtain t where
      t: "trace (copyByFdError e args i out w1) = trace w1 @ [Sys (Close i), Sys (Close out)] @
            [Sys (Remove (Destination args)), failure_event args t]"
      by blast
    let ?pre = "evs @ [Sys (Close i), Sys (Close out)]"
    have "trace w' = trace w @ ?pre @ [Sys (Remove (Destination args)), failure_event args t]"
      using bad[rule_format, OF True] t t1 by simp
    moreover have "quiet args N ?pre" using q by simp
    moreover have "rising 0 N ?pre" using r by (simp add: rising_sys_suffix)
    moreover have "fs w' = (fs w)(Destination args := None)"
      using bad[rule_format, OF True] f1 by (simp add: copyByFdError_fs)
    ultimately show ?thesis unfolding failure_shape_def by blast
  next
    case False
    let ?tail = "(if UpdateProgress args then [progress_event args N N] else []) @
           [Sys (Close i), Sys (Fsync out), Sys (Close out)] @
           (if rm then [Sys (Remove (Source args))] else []) @ [success_event args]"
    have "trace w' = trace w @ evs @ ?tail" using good_tr[rule_format, OF False] t1 by simp
    moreover have "success_shape args N rm (evs @ ?tail)"
      unfolding success_shape_def using q r by blast
    moreover have "fs w' = (if rm
                     then (fs w)(Destination args \<mapsto> \<lparr>content = final, mode = m\<rparr>,
                                 Source args := None)
                     else (fs w)(Destination args \<mapsto> \<lparr>content = final, mode = m\<rparr>))"
      using good_fs[rule_format, OF False] f1 c False by simp
    ultimately show ?thesis by blast
  qed
qed

lemma Copy_total:
  assumes "\<exists>y. Copy_loop e args i out N w 0 0 = Some y"
  shows "\<exists>w'. Copy e w i out N args rm = Some w'"
  using assms by (auto simp: Copy_def Let_def)

subsection \<open>Opening the two files\<close>

lemma open_rdonly_cases:
  assumes "open_rdonly e w p = (i, w1)"
  shows "trace w1 = trace w @ [Sys (Open p)]" and "fs w1 = fs w"
    and "i < 0 \<or> (i = int (nfd w) \<and> (\<exists>f. fs w p = Some f) \<and>
           fds w1 = (fds w)(i \<mapsto> (p, 0)) \<and> nfd w1 = Suc (nfd w))"
  using assms
  by (auto simp: open_rdonly_def tick_def issue_def failing_def Let_def split: option.splits)

lemma sys_fstat_cases:
  assumes "sys_fstat e w fd = (rc, st, w1)"
  shows "trace w1 = trace w @ [Sys (Fstat fd)]" and "fs w1 = fs w" and "fds w1 = fds w"
    and "nfd w1 = nfd w"
    and "rc \<noteq> 0 \<or> (\<exists>p off f. fds w fd = Some (p, off) \<and> fs w p = Some f \<and>
           st = \<lparr>st_size = int (length (content f)), st_mode = mode f, st_dev = devs e p\<rparr>)"
  using assms
  by (auto simp: sys_fstat_def behind_def tick_def issue_def failing_def Let_def
      split: option.splits)

lemma truncated_eq: "g\<lparr>content := []\<rparr> = \<lparr>content = [], mode = mode g\<rparr>"
  by (cases g) simp

lemma open_creat_trunc_cases:
  assumes "open_creat_trunc e w p m = (out, w1)"
  shows "trace w1 = trace w @ [Sys (Open p)]"
    and "out < 0 \<and> fs w1 = fs w \<or>
         (out = int (nfd w) \<and>
          fs w1 = (fs w)(p \<mapsto> \<lparr>content = [],
                     mode = (case fs w p of None \<Rightarrow> m AND NOT (umask e) | Some g \<Rightarrow> mode g)\<rparr>) \<and>
          fds w1 = (fds w)(out \<mapsto> (p, 0)))"
  using assms
  by (auto simp: open_creat_trunc_def tick_def issue_def failing_def Let_def truncated_eq
      split: option.splits)

lemma Copy_body_prelude:
  "Copy_body e w args =
     (case prelude e w args of
        Inl we \<Rightarrow> Some (copyByPathError e args we)
      | Inr (i, out, st, w3) \<Rightarrow> Copy e w3 i out (st_size st) args False)"
  by (simp add: Copy_body_def prelude_def split: prod.splits)

lemma Move_body_prelude:
  "Move_body e w args =
     (case prelude e w args of
        Inl we \<Rightarrow> Some (moveError e args we)
      | Inr (i, out, in_stats, w3) \<Rightarrow>
          (case sys_fstat e w3 out of
             (rc2, out_stats, w4) \<Rightarrow>
               if rc2 \<noteq> 0 then Some (moveError e args (sys_close (sys_close w4 i) out))
               else if st_dev in_stats = st_dev out_stats then
                 Some (SendComplete args
                   (SendProgressUpdate args (st_size in_stats) (st_size in_stats)
                     (snd (sys_rename e
                       (sys_remove (sys_close (sys_close w4 i) out) (Destination args))
                       (Source args) (Destination args)))))
               else Copy e w4 i out (st_size in_stats) args True))"
  by (simp add: Move_body_def prelude_def Let_def split: prod.splits)

lemma prelude_Inl:
  assumes "prelude e w args = Inl we"
  shows "\<exists>pre. trace we = trace w @ pre \<and> list_all is_io pre \<and> fs we = fs w"
proof -
  obtain i w1 where o1: "open_rdonly e w (Source args) = (i, w1)"
    by (cases "open_rdonly e w (Source args)")
  note c1 = open_rdonly_cases[OF o1]
  show ?thesis
  proof (cases "i < 0")
    case True
    with assms o1 have "we = w1" by (simp add: prelude_def)
    with c1 show ?thesis by simp
  next
    case i: False
    obtain rc st w2 where o2: "sys_fstat e w1 i = (rc, st, w2)"
      by (cases "sys_fstat e w1 i") auto
    note c2 = sys_fstat_cases[OF o2]
    show ?thesis
    proof (cases "rc \<noteq> 0")
      case True
      with assms o1 o2 i have "we = sys_close w2 i" by (simp add: prelude_def)
      with c1 c2 show ?thesis by simp
    next
      case rc: False
      obtain out w3 where o3: "open_creat_trunc e w2 (Destination args) (st_mode st) = (out, w3)"
        by (cases "open_creat_trunc e w2 (Destination args) (st_mode st)")
      note c3 = open_creat_trunc_cases[OF o3]
      from assms o1 o2 o3 i rc have "out < 0" and "we = sys_close w3 i"
        by (auto simp: prelude_def split: if_splits)
      with c1 c2 c3 show ?thesis by auto
    qed
  qed
qed

lemma prelude_Inr:
  assumes "prelude e w args = Inr (i, out, st, w3)"
  shows "\<exists>fsrc. fs w (Source args) = Some fsrc \<and>
      st = \<lparr>st_size = int (length (content fsrc)), st_mode = mode fsrc,
            st_dev = devs e (Source args)\<rparr> \<and>
      i = int (nfd w) \<and> out = int (Suc (nfd w)) \<and>
      fds w3 i = Some (Source args, 0) \<and> fds w3 out = Some (Destination args, 0) \<and>
      fs w3 = (fs w)(Destination args \<mapsto> \<lparr>content = [],
                 mode = (case fs w (Destination args) of
                           None \<Rightarrow> mode fsrc AND NOT (umask e) | Some g \<Rightarrow> mode g)\<rparr>) \<and>
      trace w3 = trace w @
        [Sys (Open (Source args)), Sys (Fstat i), Sys (Open (Destination args))]"
proof -
  obtain i' w1 where o1: "open_rdonly e w (Source args) = (i', w1)"
    by (cases "open_rdonly e w (Source args)")
  note c1 = open_rdonly_cases[OF o1]
  obtain rc st' w2 where o2: "sys_fstat e w1 i' = (rc, st', w2)"
    by (cases "sys_fstat e w1 i'") auto
  note c2 = sys_fstat_cases[OF o2]
  obtain out' w3' where o3: "open_creat_trunc e w2 (Destination args) (st_mode st') = (out', w3')"
    by (cases "open_creat_trunc e w2 (Destination args) (st_mode st')")
  note c3 = open_creat_trunc_cases[OF o3]
  from assms o1 o2 o3 have ok: "\<not> i' < 0" "rc = 0" "\<not> out' < 0"
    and eq: "i' = i" "out' = out" "st' = st" "w3' = w3"
    by (auto simp: prelude_def split: if_splits)
  from c1(3) ok(1) obtain fsrc where i: "i' = int (nfd w)" and fsrc: "fs w (Source args) = Some fsrc"
    and fds1: "fds w1 = (fds w)(i' \<mapsto> (Source args, 0))" and nfd1: "nfd w1 = Suc (nfd w)"
    by auto
  from c2(5) ok(2) fds1 fsrc c1(2)
  have st: "st' = \<lparr>st_size = int (length (content fsrc)), st_mode = mode fsrc,
                   st_dev = devs e (Source args)\<rparr>"
    by auto
  from c3(2) ok(3) have out: "out' = int (nfd w2)"
    and fs3: "fs w3' = (fs w2)(Destination args \<mapsto> \<lparr>content = [],
                 mode = (case fs w2 (Destination args) of
                           None \<Rightarrow> st_mode st' AND NOT (umask e) | Some g \<Rightarrow> mode g)\<rparr>)"
    and fds3: "fds w3' = (fds w2)(out' \<mapsto> (Destination args, 0))"
    by auto
  have fs2: "fs w2 = fs w" using c1(2) c2(2) by simp
  have out2: "out' = int (Suc (nfd w))" using out c2(4) nfd1 by simp
  have a: "fds w3' i' = Some (Source args, 0)" using fds3 c2(3) fds1 i out2 by simp
  have b: "fds w3' out' = Some (Destination args, 0)" using fds3 by simp
  have c: "trace w3' = trace w @
        [Sys (Open (Source args)), Sys (Fstat i'), Sys (Open (Destination args))]"
    using c1(1) c2(1) c3(1) by simp
  have d: "fs w3' = (fs w)(Destination args \<mapsto> \<lparr>content = [],
                 mode = (case fs w (Destination args) of
                           None \<Rightarrow> mode fsrc AND NOT (umask e) | Some g \<Rightarrow> mode g)\<rparr>)"
  proof -
    have sm: "st_mode st' = mode fsrc" using st by simp
    show ?thesis using fs3[unfolded fs2 sm] .
  qed
  from fsrc st i out2 a b c d show ?thesis unfolding eq by blast
qed

lemma opened_loop_post:
  assumes fsrc: "fs w src = Some fsrc"
    and st: "fds w3 i = Some (src, 0)" "fds w3 out = Some (dst, 0)" "i \<noteq> out"
      "fs w3 = (fs w)(dst \<mapsto> \<lparr>content = [], mode = m\<rparr>)"
    and N: "N = int (length (content fsrc))"
    and loop: "Copy_loop e args i out N w3 0 0 = Some (err, w1)"
  shows "\<exists>c evs. fs w1 = (fs w3)(dst \<mapsto> \<lparr>content = c, mode = m\<rparr>) \<and>
           (\<not> err \<longrightarrow> c = (if src = dst then [] else content fsrc)) \<and>
           trace w1 = trace w3 @ evs \<and> quiet args N evs \<and> rising 0 N evs"
proof (cases "src = dst")
  case True
  have f: "fs w3 src = Some \<lparr>content = [], mode = m\<rparr>" using st(4) True by simp
  from Copy_loop_eof[OF st(1) f, of e args out N 0 0] loop
  have "fs w1 = fs w3" and tr: "trace w1 = trace w3 @ [Sys (Read i)]" by auto
  with f True have "fs w1 = (fs w3)(dst \<mapsto> \<lparr>content = [], mode = m\<rparr>)"
    by (simp add: map_upd_triv)
  moreover have "quiet args N [Sys (Read i)]" by simp
  moreover have "rising 0 N [Sys (Read i)]" by (simp add: rising_def)
  ultimately show ?thesis using tr True
    by (intro exI[of _ "[]"] exI[of _ "[Sys (Read i)]"]) simp
next
  case False
  have c: "copying src dst fsrc m i out 0 w3"
    using st fsrc False by (simp add: copying_def)
  from loop have "Copy_loop e args i out N w3 (int 0) 0 = Some (err, w1)" by simp
  from Copy_loop_post[OF c this N] False show ?thesis by simp
qed

lemma opened_loop_total:
  assumes "write_progress e" and fsrc: "fs w src = Some fsrc"
    and st: "fds w3 i = Some (src, 0)" "fds w3 out = Some (dst, 0)" "i \<noteq> out"
      "fs w3 = (fs w)(dst \<mapsto> \<lparr>content = [], mode = m\<rparr>)"
  shows "\<exists>y. Copy_loop e args i out N w3 0 0 = Some y"
proof (cases "src = dst")
  case True
  have f: "fs w3 src = Some \<lparr>content = [], mode = m\<rparr>" using st(4) True by simp
  from Copy_loop_eof[OF st(1) f, of e args out N 0 0] show ?thesis by auto
next
  case False
  have c: "copying src dst fsrc m i out 0 w3"
    using st fsrc False by (simp add: copying_def)
  from Copy_loop_total[OF assms(1) c] show ?thesis .
qed

subsection \<open>The shape of every run of the two methods\<close>

lemma fun_upd_over: "(f(a \<mapsto> x))(a \<mapsto> y) = f(a \<mapsto> y)" "(f(a \<mapsto> x))(a := None) = f(a := None)"
  by simp_all

lemma Copy_body_shape:
  assumes run: "Copy_body e w args = Some w'"
  shows "failure_shape args (emitted w w') \<and> fs w' = (fs w)(Destination args := None) \<or>
    (\<exists>fsrc. fs w (Source args) = Some fsrc \<and>
       success_shape args (int (length (content fsrc))) False (emitted w w') \<and>
       fs w' = (fs w)(Destination args \<mapsto>
         \<lparr>content = (if Source args = Destination args then [] else content fsrc),
          mode = (case fs w (Destination args) of
                    None \<Rightarrow> mode fsrc AND NOT (umask e) | Some g \<Rightarrow> mode g)\<rparr>))"
proof (cases "prelude e w args")
  case (Inl we)
  with run have w': "w' = copyByPathError e args we" by (simp add: Copy_body_prelude)
  from prelude_Inl[OF Inl] obtain pre where pre: "trace we = trace w @ pre" "list_all is_io pre"
    "fs we = fs w" by blast
  from copyByPathError_trace[of e args we] obtain t where
    "trace w' = trace we @ [Sys (Remove (Destination args)), failure_event args t]"
    unfolding w' by blast
  with pre have "emitted w w' = pre @ [Sys (Remove (Destination args)), failure_event args t]"
    by (simp add: emitted_def)
  with failure_shape_sys_only[OF pre(2)] have "failure_shape args (emitted w w')" by simp
  moreover have "fs w' = (fs w)(Destination args := None)"
    using pre(3) by (simp add: w' copyByPathError_fs)
  ultimately show ?thesis by simp
next
  case (Inr x)
  then obtain i out st w3 where p: "prelude e w args = Inr (i, out, st, w3)"
    by (cases x) auto
  with run have c: "Copy e w3 i out (st_size st) args False = Some w'"
    by (simp add: Copy_body_prelude)
  from prelude_Inr[OF p] obtain fsrc where fsrc: "fs w (Source args) = Some fsrc"
    and st: "st_size st = int (length (content fsrc))"
    and io: "i \<noteq> out"
    and fds: "fds w3 i = Some (Source args, 0)" "fds w3 out = Some (Destination args, 0)"
    and fs3: "fs w3 = (fs w)(Destination args \<mapsto> \<lparr>content = [],
        mode = (case fs w (Destination args) of
                  None \<Rightarrow> mode fsrc AND NOT (umask e) | Some g \<Rightarrow> mode g)\<rparr>)"
    and tr3: "trace w3 = trace w @
        [Sys (Open (Source args)), Sys (Fstat i), Sys (Open (Destination args))]"
    by auto
  let ?m = "case fs w (Destination args) of
              None \<Rightarrow> mode fsrc AND NOT (umask e) | Some g \<Rightarrow> mode g"
  let ?N = "int (length (content fsrc))"
  let ?final = "if Source args = Destination args then [] else content fsrc"
  from Copy_shape[OF c[unfolded st], of ?m ?final]
    opened_loop_post[OF fsrc fds io fs3 refl, of e args]
  obtain evs where tr: "trace w' = trace w3 @ evs"
    and alt: "failure_shape args evs \<and> fs w' = (fs w3)(Destination args := None) \<or>
      success_shape args ?N False evs \<and>
      fs w' = (fs w3)(Destination args \<mapsto> \<lparr>content = ?final, mode = ?m\<rparr>)"
    by auto
  let ?pre = "[Sys (Open (Source args)), Sys (Fstat i), Sys (Open (Destination args))]"
  have em: "emitted w w' = ?pre @ evs" using tr tr3 by (simp add: emitted_def)
  have sys: "list_all is_io ?pre" by simp
  from alt show ?thesis
  proof
    assume a: "failure_shape args evs \<and> fs w' = (fs w3)(Destination args := None)"
    then have "failure_shape args (emitted w w')"
      unfolding em using failure_shape_prefix[OF sys] by blast
    moreover have "fs w' = (fs w)(Destination args := None)"
      using a unfolding fs3 fun_upd_over by simp
    ultimately show ?thesis by simp
  next
    assume a: "success_shape args ?N False evs \<and>
      fs w' = (fs w3)(Destination args \<mapsto> \<lparr>content = ?final, mode = ?m\<rparr>)"
    then have "success_shape args ?N False (emitted w w')"
      unfolding em using success_shape_prefix[OF sys] by blast
    moreover have "fs w' = (fs w)(Destination args \<mapsto> \<lparr>content = ?final, mode = ?m\<rparr>)"
      using a unfolding fs3 fun_upd_over by simp
    ultimately show ?thesis using fsrc by simp
  qed
qed

lemma Copy_body_total:
  assumes "write_progress e"
  shows "\<exists>w'. Copy_body e w args = Some w'"
proof (cases "prelude e w args")
  case (Inl we)
  then show ?thesis by (simp add: Copy_body_prelude)
next
  case (Inr x)
  then obtain i out st w3 where p: "prelude e w args = Inr (i, out, st, w3)"
    by (cases x) auto
  from prelude_Inr[OF p] obtain fsrc m where "fs w (Source args) = Some fsrc"
    and "i \<noteq> out"
    and "fds w3 i = Some (Source args, 0)" "fds w3 out = Some (Destination args, 0)"
    and "fs w3 = (fs w)(Destination args \<mapsto> \<lparr>content = [], mode = m\<rparr>)"
    by auto
  from opened_loop_total[OF assms this(1,3,4,2,5)]
  have "\<exists>y. Copy_loop e args i out (st_size st) w3 0 0 = Some y" .
  from Copy_total[OF this] show ?thesis by (simp add: Copy_body_prelude p)
qed

lemma sys_rename_trace [simp]:
  "trace (snd (sys_rename e w old new)) = trace w @ [Sys (Rename old new)]"
  by (simp add: sys_rename_def tick_def issue_def failing_def Let_def split: option.splits)

lemma Move_body_shape:
  assumes run: "Move_body e w args = Some w'"
  shows "failure_shape args (emitted w w') \<and> fs w' = (fs w)(Destination args := None) \<or>
    (\<exists>fsrc. fs w (Source args) = Some fsrc \<and>
       devs e (Source args) = devs e (Destination args) \<and>
       renamed_shape args (int (length (content fsrc))) (emitted w w')) \<or>
    (\<exists>fsrc. fs w (Source args) = Some fsrc \<and>
       devs e (Source args) \<noteq> devs e (Destination args) \<and>
       success_shape args (int (length (content fsrc))) True (emitted w w') \<and>
       fs w' = (fs w)(Destination args \<mapsto>
         \<lparr>content = content fsrc,
          mode = (case fs w (Destination args) of
                    None \<Rightarrow> mode fsrc AND NOT (umask e) | Some g \<Rightarrow> mode g)\<rparr>,
         Source args := None))"
proof (cases "prelude e w args")
  case (Inl we)
  with run have w': "w' = moveError e args we" by (simp add: Move_body_prelude)
  from prelude_Inl[OF Inl] obtain pre where pre: "trace we = trace w @ pre" "list_all is_io pre"
    "fs we = fs w" by blast
  from moveError_trace[of e args we] obtain t where
    "trace w' = trace we @ [Sys (Remove (Destination args)), failure_event args t]"
    unfolding w' by blast
  with pre have "emitted w w' = pre @ [Sys (Remove (Destination args)), failure_event args t]"
    by (simp add: emitted_def)
  with failure_shape_sys_only[OF pre(2)] have "failure_shape args (emitted w w')" by simp
  moreover have "fs w' = (fs w)(Destination args := None)"
    using pre(3) by (simp add: w' moveError_fs)
  ultimately show ?thesis by simp
next
  case (Inr x)
  then obtain i out st w3 where p: "prelude e w args = Inr (i, out, st, w3)"
    by (cases x) auto
  from prelude_Inr[OF p] obtain fsrc where fsrc: "fs w (Source args) = Some fsrc"
    and st: "st_size st = int (length (content fsrc))" "st_dev st = devs e (Source args)"
    and io: "i \<noteq> out"
    and fds: "fds w3 i = Some (Source args, 0)" "fds w3 out = Some (Destination args, 0)"
    and fs3: "fs w3 = (fs w)(Destination args \<mapsto> \<lparr>content = [],
        mode = (case fs w (Destination args) of
                  None \<Rightarrow> mode fsrc AND NOT (umask e) | Some g \<Rightarrow> mode g)\<rparr>)"
    and tr3: "trace w3 = trace w @
        [Sys (Open (Source args)), Sys (Fstat i), Sys (Open (Destination args))]"
    by auto
  let ?m = "case fs w (Destination args) of
              None \<Rightarrow> mode fsrc AND NOT (umask e) | Some g \<Rightarrow> mode g"
  let ?N = "int (length (content fsrc))"
  obtain rc2 ost w4 where o4: "sys_fstat e w3 out = (rc2, ost, w4)"
    by (cases "sys_fstat e w3 out") auto
  note c4 = sys_fstat_cases[OF o4]
  have tr4: "trace w4 = trace w @ [Sys (Open (Source args)), Sys (Fstat i),
      Sys (Open (Destination args)), Sys (Fstat out)]"
    using c4(1) tr3 by simp
  have fs4: "fs w4 = (fs w)(Destination args \<mapsto> \<lparr>content = [], mode = ?m\<rparr>)"
    using c4(2) fs3 by simp
  show ?thesis
  proof (cases "rc2 \<noteq> 0")
    case True
    with run p o4 have w': "w' = moveError e args (sys_close (sys_close w4 i) out)"
      by (simp add: Move_body_prelude)
    let ?pre = "[Sys (Open (Source args)), Sys (Fstat i), Sys (Open (Destination args)),
      Sys (Fstat out), Sys (Close i), Sys (Close out)]"
    from moveError_trace[of e args "sys_close (sys_close w4 i) out"] obtain t where
      "trace w' = trace (sys_close (sys_close w4 i) out) @
         [Sys (Remove (Destination args)), failure_event args t]"
      unfolding w' by blast
    with tr4 have "emitted w w' = ?pre @ [Sys (Remove (Destination args)), failure_event args t]"
      by (simp add: emitted_def)
    moreover have "list_all is_io ?pre" by simp
    ultimately have "failure_shape args (emitted w w')"
      using failure_shape_sys_only[of ?pre args t] by simp
    moreover have "fs w' = (fs w)(Destination args := None)"
      unfolding w' moveError_fs by (simp add: fs4)
    ultimately show ?thesis by simp
  next
    case rc: False
    with c4(5) fds(2) have od: "st_dev ost = devs e (Destination args)" by auto
    show ?thesis
    proof (cases "devs e (Source args) = devs e (Destination args)")
      case True
      with run p o4 rc st od have w': "w' = SendComplete args
                   (SendProgressUpdate args ?N ?N
                     (snd (sys_rename e
                       (sys_remove (sys_close (sys_close w4 i) out) (Destination args))
                       (Source args) (Destination args))))"
        by (simp add: Move_body_prelude)
      have "emitted w w' = [Sys (Open (Source args)), Sys (Fstat i),
          Sys (Open (Destination args)), Sys (Fstat out),
          Sys (Close i), Sys (Close out), Sys (Remove (Destination args)),
          Sys (Rename (Source args) (Destination args))] @
          (if UpdateProgress args then [progress_event args ?N ?N] else []) @
          [success_event args]"
        unfolding w' by (simp add: emitted_def tr4 SendProgressUpdate_trace)
      then have "renamed_shape args ?N (emitted w w')"
        unfolding renamed_shape_def by blast
      with fsrc True show ?thesis by blast
    next
      case False
      then have ne: "Source args \<noteq> Destination args" by auto
      from run p o4 rc st od False have c: "Copy e w4 i out ?N args True = Some w'"
        by (simp add: Move_body_prelude)
      have fds4: "fds w4 i = Some (Source args, 0)" "fds w4 out = Some (Destination args, 0)"
        using fds c4(3) by simp_all
      from Copy_shape[OF c, of ?m "if Source args = Destination args then [] else content fsrc"]
        opened_loop_post[OF fsrc fds4 io fs4 refl, of e args]
      obtain evs where tr: "trace w' = trace w4 @ evs"
        and alt: "failure_shape args evs \<and> fs w' = (fs w4)(Destination args := None) \<or>
          success_shape args ?N True evs \<and>
          fs w' = (fs w4)(Destination args \<mapsto> \<lparr>content = content fsrc, mode = ?m\<rparr>,
                          Source args := None)"
        using ne by auto
      let ?pre = "[Sys (Open (Source args)), Sys (Fstat i), Sys (Open (Destination args)),
        Sys (Fstat out)]"
      have em: "emitted w w' = ?pre @ evs" using tr tr4 by (simp add: emitted_def)
      have sys: "list_all is_io ?pre" by simp
      from alt show ?thesis
      proof
        assume a: "failure_shape args evs \<and> fs w' = (fs w4)(Destination args := None)"
        then have "failure_shape args (emitted w w')"
          unfolding em using failure_shape_prefix[OF sys] by blast
        moreover have "fs w' = (fs w)(Destination args := None)"
          using a unfolding fs4 fun_upd_over by simp
        ultimately show ?thesis by simp
      next
        assume a: "success_shape args ?N True evs \<and>
          fs w' = (fs w4)(Destination args \<mapsto> \<lparr>content = content fsrc, mode = ?m\<rparr>,
                          Source args := None)"
        then have "success_shape args ?N True (emitted w w')"
          unfolding em using success_shape_prefix[OF sys] by blast
        moreover have "fs w' = (fs w)(Destination args \<mapsto> \<lparr>content = content fsrc, mode = ?m\<rparr>,
                          Source args := None)"
          using a unfolding fs4 fun_upd_over by simp
        ultimately show ?thesis using fsrc False by blast
      qed
    qed
  qed
qed

lemma Move_body_total:
  assumes "write_progress e"
  shows "\<exists>w'. Move_body e w args = Some w'"
proof (cases "prelude e w args")
  case (Inl we)
  then show ?thesis by (simp add: Move_body_prelude)
next
  case (Inr x)
  then obtain i out st w3 where p: "prelude e w args = Inr (i, out, st, w3)"
    by (cases x) auto
  from prelude_Inr[OF p] obtain fsrc m where fsrc: "fs w (Source args) = Some fsrc"
    and io: "i \<noteq> out"
    and fds: "fds w3 i = Some (Source args, 0)" "fds w3 out = Some (Destination args, 0)"
    and fs3: "fs w3 = (fs w)(Destination args \<mapsto> \<lparr>content = [], mode = m\<rparr>)"
    by auto
  obtain rc2 ost w4 where o4: "sys_fstat e w3 out = (rc2, ost, w4)"
    by (cases "sys_fstat e w3 out") auto
  note c4 = sys_fstat_cases[OF o4]
  have fds4: "fds w4 i = Some (Source args, 0)" "fds w4 out = Some (Destination args, 0)"
    using fds c4(3) by simp_all
  have fs4: "fs w4 = (fs w)(Destination args \<mapsto> \<lparr>content = [], mode = m\<rparr>)"
    using c4(2) fs3 by simp
  from opened_loop_total[OF assms fsrc fds4 io fs4]
  have "\<exists>y. Copy_loop e args i out (st_size st) w4 0 0 = Some y" .
  from Copy_total[OF this, of True] show ?thesis
    by (auto simp: Move_body_prelude p o4)
qed

subsection \<open>What the shapes say about the callbacks\<close>

lemma is_completion_events [simp]:
  "is_completion (success_event args)" "is_completion (failure_event args t)"
  "\<not> is_completion (progress_event args c N)" "\<not> is_completion (Sys s)"
  by (simp_all add: success_event_def failure_event_def progress_event_def)

lemma progress_of_events [simp]:
  "progress_of (success_event args) = []" "progress_of (failure_event args t) = []"
  "progress_of (progress_event args c N) = [(c, N)]" "progress_of (Sys s) = []"
  by (simp_all add: success_event_def failure_event_def progress_event_def)

lemma completions_append [simp]: "completions (xs @ ys) = completions xs @ completions ys"
  by (simp add: completions_def)

lemma completions_Cons:
  "completions (ev # evs) = (if is_completion ev then ev # completions evs else completions evs)"
  by (simp add: completions_def)

lemma completions_Nil [simp]: "completions [] = []"
  by (simp add: completions_def)

lemma completions_quiet: "quiet args N evs \<Longrightarrow> completions evs = []"
  unfolding completions_def quiet_def filter_empty_conv
proof
  fix ev
  assume q: "\<forall>ev\<in>set evs. is_io ev \<or> UpdateProgress args \<and> (\<exists>c. ev = progress_event args c N)"
    and "ev \<in> set evs"
  then have "is_io ev \<or> (\<exists>c. ev = progress_event args c N)" by blast
  then show "\<not> is_completion ev"
  proof
    assume "is_io ev"
    then obtain s where "ev = Sys s" by (cases ev) auto
    then show ?thesis by simp
  next
    assume "\<exists>c. ev = progress_event args c N"
    then show ?thesis by auto
  qed
qed

lemma progress_calls_Cons: "progress_calls (ev # evs) = progress_of ev @ progress_calls evs"
  by (simp add: progress_calls_def)

lemma progress_calls_tail:
  "progress_calls ((if up then [progress_event args N N] else []) @
      [Sys a, Sys b, Sys c] @ (if rm then [Sys d] else []) @ [success_event args])
   = (if up then [(N, N)] else [])"
  by (simp add: progress_calls_Cons)

lemma completions_tail:
  "completions ((if up then [progress_event args N N] else []) @
      [Sys a, Sys b, Sys c] @ (if rm then [Sys d] else []) @ [success_event args])
   = [success_event args]"
  by (simp add: completions_Cons)

lemma completions_failure_shape:
  assumes "failure_shape args evs"
  shows "\<exists>t. completions evs = [failure_event args t]"
proof -
  from assms obtain N pre t where
    "evs = pre @ [Sys (Remove (Destination args)), failure_event args t]" "quiet args N pre"
    unfolding failure_shape_def by blast
  then have "completions evs = [failure_event args t]"
    by (simp add: completions_quiet completions_Cons)
  then show ?thesis by blast
qed

lemma completions_success_shape:
  assumes "success_shape args N rm evs"
  shows "completions evs = [success_event args]"
proof -
  from assms obtain pre i out where
    evs: "evs = pre @ (if UpdateProgress args then [progress_event args N N] else []) @
          [Sys (Close i), Sys (Fsync out), Sys (Close out)] @
          (if rm then [Sys (Remove (Source args))] else []) @ [success_event args]"
    and q: "quiet args N pre"
    unfolding success_shape_def by blast
  show ?thesis
    unfolding evs completions_append[of pre] completions_quiet[OF q] completions_tail by simp
qed

lemma completions_renamed_shape:
  assumes "renamed_shape args N evs"
  shows "completions evs = [success_event args]"
  using assms unfolding renamed_shape_def by (auto simp: completions_Cons)

lemma in_completions: "ev \<in> set evs \<Longrightarrow> is_completion ev \<Longrightarrow> ev \<in> set (completions evs)"
  by (simp add: completions_def)

lemma success_failure_distinct [simp]: "success_event args \<noteq> failure_event args t"
  by (simp add: success_event_def failure_event_def)

lemma no_success_in_failure_shape:
  assumes "failure_shape args evs"
  shows "success_event args \<notin> set evs"
proof
  assume "success_event args \<in> set evs"
  then have "success_event args \<in> set (completions evs)" by (rule in_completions) simp
  with completions_failure_shape[OF assms] show False by auto
qed

lemma no_failure_in_success_shape:
  assumes "success_shape args N rm evs"
  shows "failure_event args t \<notin> set evs"
proof
  assume "failure_event args t \<in> set evs"
  then have "failure_event args t \<in> set (completions evs)" by (rule in_completions) simp
  with completions_success_shape[OF assms] show False by (auto dest: sym)
qed

lemma no_failure_in_renamed_shape:
  assumes "renamed_shape args N evs"
  shows "failure_event args t \<notin> set evs"
proof
  assume "failure_event args t \<in> set evs"
  then have "failure_event args t \<in> set (completions evs)" by (rule in_completions) simp
  with completions_renamed_shape[OF assms] show False by (auto dest: sym)
qed

lemma sorted_snoc_bound: "sorted xs \<Longrightarrow> \<forall>x \<in> set xs. x \<le> (N::int) \<Longrightarrow> sorted (xs @ [N])"
  by (simp add: sorted_append)

lemma progress_failure_shape:
  assumes "failure_shape args evs"
  shows "sorted (map fst (progress_calls evs))"
proof -
  from assms obtain N pre t where
    "evs = pre @ [Sys (Remove (Destination args)), failure_event args t]" "rising 0 N pre"
    unfolding failure_shape_def by blast
  then show ?thesis by (simp add: rising_def progress_calls_Cons)
qed

lemma progress_success_shape:
  assumes "success_shape args N rm evs"
  shows "sorted (map fst (progress_calls evs))"
    and "UpdateProgress args \<Longrightarrow> progress_calls evs \<noteq> [] \<and> last (progress_calls evs) = (N, N)"
proof -
  from assms obtain pre i out where
    evs: "evs = pre @ (if UpdateProgress args then [progress_event args N N] else []) @
          [Sys (Close i), Sys (Fsync out), Sys (Close out)] @
          (if rm then [Sys (Remove (Source args))] else []) @ [success_event args]"
    and r: "rising 0 N pre"
    unfolding success_shape_def by blast
  have pc: "progress_calls evs = progress_calls pre @ (if UpdateProgress args then [(N, N)] else [])"
    unfolding evs progress_calls_append[of pre] progress_calls_tail by simp
  from r have s: "sorted (map fst (progress_calls pre))"
    and b: "\<forall>x \<in> set (map fst (progress_calls pre)). x \<le> N"
    by (auto simp: rising_def)
  show "sorted (map fst (progress_calls evs))"
    unfolding pc using sorted_snoc_bound[OF s b] s by simp
  show "progress_calls evs \<noteq> [] \<and> last (progress_calls evs) = (N, N)" if "UpdateProgress args"
    unfolding pc using that by simp
qed

lemma progress_renamed_shape:
  assumes "renamed_shape args N evs"
  shows "progress_calls evs = (if UpdateProgress args then [(N, N)] else [])"
  using assms unfolding renamed_shape_def by (auto simp: progress_calls_Cons)

lemma quiet_no_remove: "quiet args N evs \<Longrightarrow> Sys (Remove p) \<notin> set evs"
  by (auto simp: quiet_def progress_event_def)

lemma quiet_progress_events:
  assumes "quiet args N evs" and "ev \<in> set evs" and "progress_of ev \<noteq> []"
  shows "\<exists>c. ev = progress_event args c N"
proof -
  from assms(1,2) have "is_io ev \<or> (\<exists>c. ev = progress_event args c N)"
    by (auto simp: quiet_def)
  then show ?thesis
  proof
    assume "is_io ev"
    then obtain s where "ev = Sys s" by (cases ev) auto
    with assms(3) show ?thesis by simp
  qed
qed

lemma failure_shape_progress_events:
  assumes "failure_shape args evs" and "ev \<in> set evs" and "progress_of ev \<noteq> []"
  shows "\<exists>c N. ev = progress_event args c N"
proof -
  from assms(1) obtain N pre t where
    evs: "evs = pre @ [Sys (Remove (Destination args)), failure_event args t]"
    and q: "quiet args N pre"
    unfolding failure_shape_def by blast
  from assms(2,3) evs have "ev \<in> set pre" by auto
  from quiet_progress_events[OF q this assms(3)] show ?thesis by blast
qed

lemma success_shape_progress_events:
  assumes "success_shape args N rm evs" and "ev \<in> set evs" and "progress_of ev \<noteq> []"
  shows "\<exists>c. ev = progress_event args c N"
proof -
  from assms(1) obtain pre i out where
    evs: "evs = pre @ (if UpdateProgress args then [progress_event args N N] else []) @
          [Sys (Close i), Sys (Fsync out), Sys (Close out)] @
          (if rm then [Sys (Remove (Source args))] else []) @ [success_event args]"
    and q: "quiet args N pre"
    unfolding success_shape_def by blast
  from assms(2,3) evs have "ev \<in> set pre \<or> ev = progress_event args N N"
    by (auto split: if_splits)
  then show ?thesis using quiet_progress_events[OF q _ assms(3)] by blast
qed

lemma renamed_shape_progress_events:
  assumes "renamed_shape args N evs" and "ev \<in> set evs" and "progress_of ev \<noteq> []"
  shows "\<exists>c. ev = progress_event args c N"
  using assms unfolding renamed_shape_def by (auto split: if_splits)

subsection \<open>Concrete runs\<close>

lemmas run_defs = Copy_body_def Move_body_def Copy_def Copy_loop.simps doWrite.simps
  open_rdonly_def open_creat_trunc_def sys_fstat_def sys_read_def sys_write_def sys_close_def
  sys_fsync_def sys_remove_def sys_rename_def behind_def tick_def issue_def failing_def
  store_at_def BUFFER_SIZE_def ENOENT_def EBADF_def EXDEV_def
  SendProgressUpdate_def SendComplete_def SendError_def
  copyByFdError_def copyByPathError_def moveError_def Let_def emitted_def
  env_ok_def env_stall_def env_fail_def w_ab_def w_a_def w_open_def
  args_ab_def args_ac_def args_ax_def info_ab_def

lemma env_ok_progress: "write_progress env_ok"
  by (simp add: write_progress_def env_ok_def)

lemma env_fail_progress: "write_progress (env_fail k)"
  by (simp add: write_progress_def env_fail_def env_ok_def)

lemma run_copy_ab:
  "map_option (\<lambda>w'. (emitted w_ab w', fs w')) (Copy_body env_ok w_ab args_ab) =
   Some ([Sys (Open ''a''), Sys (Fstat 3), Sys (Open ''b''), Sys (Read 3),
          Sys (Write 4 3), Sys (Write 4 1), Call 1 [JNum 3, JNum 3], Sys (Read 3),
          Call 1 [JNum 3, JNum 3], Sys (Close 3), Sys (Fsync 4), Sys (Close 4),
          Call 2 [JNull, JBool True]],
         [''a'' \<mapsto> \<lparr>content = [1, 2, 3], mode = 420\<rparr>,
          ''b'' \<mapsto> \<lparr>content = [1, 2, 3], mode = 384\<rparr>])"
  by (simp add: run_defs)

lemma run_copy_ac:
  "map_option (\<lambda>w'. (emitted w_a w', fs w')) (Copy_body env_ok w_a args_ac) =
   Some ([Sys (Open ''a''), Sys (Fstat 3), Sys (Open ''c''), Sys (Read 3),
          Sys (Write 4 3), Sys (Write 4 1), Call 1 [JNum 3, JNum 3], Sys (Read 3),
          Call 1 [JNum 3, JNum 3], Sys (Close 3), Sys (Fsync 4), Sys (Close 4),
          Call 2 [JNull, JBool True]],
         [''a'' \<mapsto> \<lparr>content = [1, 2, 3], mode = 420\<rparr>,
          ''c'' \<mapsto> \<lparr>content = [1, 2, 3], mode = 420\<rparr>])"
  by (simp add: run_defs)

lemma run_copy_ab_write_fails:
  "map_option (\<lambda>w'. (emitted w_ab w', fs w')) (Copy_body (env_fail 4) w_ab args_ab) =
   Some ([Sys (Open ''a''), Sys (Fstat 3), Sys (Open ''b''), Sys (Read 3),
          Sys (Write 4 3), Sys (Close 3), Sys (Close 4), Sys (Remove ''b''),
          Call 2 [JStr ''Input/output error'', JBool False]],
         [''a'' \<mapsto> \<lparr>content = [1, 2, 3], mode = 420\<rparr>])"
  by (simp add: run_defs)

lemma run_move_ab:
  "map_option (\<lambda>w'. (emitted w_ab w', fs w')) (Move_body env_ok w_ab args_ab) =
   Some ([Sys (Open ''a''), Sys (Fstat 3), Sys (Open ''b''), Sys (Fstat 4),
          Sys (Close 3), Sys (Close 4), Sys (Remove ''b''), Sys (Rename ''a'' ''b''),
          Call 1 [JNum 3, JNum 3], Call 2 [JNull, JBool True]],
         [''b'' \<mapsto> \<lparr>content = [1, 2, 3], mode = 420\<rparr>])"
  by (simp add: run_defs)

lemma run_move_ax:
  "map_option (\<lambda>w'. (emitted w_ab w', fs w')) (Move_body env_ok w_ab args_ax) =
   Some ([Sys (Open ''a''), Sys (Fstat 3), Sys (Open ''x''), Sys (Fstat 4),
          Sys (Read 3), Sys (Write 4 3), Sys (Write 4 1), Call 1 [JNum 3, JNum 3],
          Sys (Read 3), Call 1 [JNum 3, JNum 3], Sys (Close 3), Sys (Fsync 4),
          Sys (Close 4), Sys (Remove ''a''), Call 2 [JNull, JBool True]],
         [''b'' \<mapsto> \<lparr>content = [9], mode = 384\<rparr>,
          ''x'' \<mapsto> \<lparr>content = [1, 2, 3], mode = 420\<rparr>])"
  by (simp add: run_defs)

lemma run_copy_ax:
  "map_option (\<lambda>w'. (emitted w_ab w', fs w')) (Copy_body env_ok w_ab args_ax) =
   Some ([Sys (Open ''a''), Sys (Fstat 3), Sys (Open ''x''),
          Sys (Read 3), Sys (Write 4 3), Sys (Write 4 1), Call 1 [JNum 3, JNum 3],
          Sys (Read 3), Call 1 [JNum 3, JNum 3], Sys (Close 3), Sys (Fsync 4),
          Sys (Close 4), Call 2 [JNull, JBool True]],
         [''a'' \<mapsto> \<lparr>content = [1, 2, 3], mode = 420\<rparr>,
          ''b'' \<mapsto> \<lparr>content = [9], mode = 384\<rparr>,
          ''x'' \<mapsto> \<lparr>content = [1, 2, 3], mode = 420\<rparr>])"
  by (simp add: run_defs)

lemma run_move_ax_write_fails:
  "map_option (\<lambda>w'. (emitted w_ab w', fs w')) (Move_body (env_fail 5) w_ab args_ax) =
   Some ([Sys (Open ''a''), Sys (Fstat 3), Sys (Open ''x''), Sys (Fstat 4),
          Sys (Read 3), Sys (Write 4 3), Sys (Close 3), Sys (Close 4), Sys (Remove ''x''),
          Call 2 [JStr ''Input/output error'', JBool False]],
         [''a'' \<mapsto> \<lparr>content = [1, 2, 3], mode = 420\<rparr>,
          ''b'' \<mapsto> \<lparr>content = [9], mode = 384\<rparr>])"
  by (simp add: run_defs)

section \<open>The claims\<close>

subsection \<open>C1: what a successful copy leaves\<close>


lemma and_not_disjoint: "(m :: mode_t) AND u = 0 \<Longrightarrow> m AND NOT u = m"
  by (auto simp: bit_eq_iff bit_and_iff bit_not_iff)



subsection \<open>C2: which argument receives what\<close>


lemma IsFunction_JFun: "IsFunction v \<Longrightarrow> \<exists>f. v = JFun f"
  by (cases v) simp_all

lemma Args_ctor_four:
  assumes "length info = 4" and "Args_ctor info = Inr args"
  shows "\<exists>f3 f4. info ! 2 = JFun f3 \<and> info ! 3 = JFun f4 \<and>
           ProgressCallback args = f3 \<and> ResultCallback args = f4 \<and> UpdateProgress args"
proof -
  from assms have "IsFunction (info ! 2)" and "IsFunction (info ! 3)"
    by (auto simp: Args_ctor_def split: if_splits)
  then obtain f3 f4 where f: "info ! 2 = JFun f3" "info ! 3 = JFun f4"
    using IsFunction_JFun by blast
  from assms f have "ProgressCallback args = f3 \<and> ResultCallback args = f4 \<and> UpdateProgress args"
    by (auto simp: Args_ctor_def Let_def split: if_splits sum.splits)
  with f show ?thesis by blast
qed



subsection \<open>C3: one completion call\<close>



subsection \<open>C4: a failed operation leaves no destination file\<close>



subsection \<open>C5: a rename that fails\<close>

text \<open>
  C5 is not what the code does: \<open>Move\<close> never looks at the result of \<open>rename\<close>. On a
  same-device move whose rename fails (call number 4 of the schedule, after two opens and
  two stats), the completion callback receives (null, true), no failure is reported, the
  source is still in place and the destination, removed just before, is gone.
\<close>

theorem C5_failed_rename_reported_as_success:
  "faults (env_fail 4) 4 = Some 5 \<and>
   Move_body (env_fail 4) w_ab args_ab = Some w_ab_lost \<and>
   errno w_ab_lost = 5 \<and>
   completions (emitted w_ab w_ab_lost) = [Call 2 [JNull, JBool True]] \<and>
   signals_success args_ab w_ab w_ab_lost \<and> \<not> signals_failure args_ab w_ab w_ab_lost \<and>
   fs w_ab_lost ''a'' = fs w_ab ''a'' \<and> fs w_ab_lost ''b'' = None"
  by (simp add: run_defs w_ab_lost_def completions_def signals_success_def
      signals_failure_def success_event_def failure_event_def)
subsection \<open>C6: progress notifications\<close>


subsection \<open>C7: a move within one device\<close>

lemma sys_close_fds [simp]: "fds (sys_close w fd) = (fds w)(fd := None)"
  by (simp add: sys_close_def issue_def)

lemma sys_close_clock [simp]: "clock (sys_close w fd) = clock w"
  by (simp add: sys_close_def issue_def)

lemma sys_remove_fds [simp]: "fds (sys_remove w p) = fds w"
  by (simp add: sys_remove_def issue_def failing_def Let_def split: option.splits)

lemma sys_remove_clock [simp]: "clock (sys_remove w p) = clock w"
  by (simp add: sys_remove_def issue_def failing_def Let_def split: option.splits)

lemma sys_rename_fds [simp]: "fds (snd (sys_rename e w old new)) = fds w"
  by (simp add: sys_rename_def tick_def issue_def failing_def Let_def split: option.splits)

lemma sys_rename_done:
  assumes "faults e (clock w) = None" and "fs w old = Some f" and "devs e old = devs e new"
  shows "fs (snd (sys_rename e w old new)) = (fs w)(old := None, new \<mapsto> f)"
  using assms by (simp add: sys_rename_def tick_def issue_def Let_def)

lemma SendComplete_fds [simp]: "fds (SendComplete args w) = fds w"
  by (simp add: SendComplete_def)

lemma prelude_succeeds:
  assumes "fs w (Source args) = Some fsrc"
    and "faults e (clock w) = None" and "faults e (Suc (clock w)) = None"
    and "faults e (Suc (Suc (clock w))) = None"
  shows "\<exists>st w3. prelude e w args = Inr (int (nfd w), int (Suc (nfd w)), st, w3) \<and>
           clock w3 = Suc (Suc (Suc (clock w))) \<and>
           fds w3 = (fds w)(int (nfd w) \<mapsto> (Source args, 0),
                            int (Suc (nfd w)) \<mapsto> (Destination args, 0))"
  using assms
  by (simp add: prelude_def open_rdonly_def sys_fstat_def open_creat_trunc_def behind_def
      tick_def issue_def Let_def)

lemma sys_fstat_succeeds:
  assumes "faults e (clock w) = None" and "fds w fd = Some (p, off)" and "fs w p = Some f"
  shows "\<exists>st w1. sys_fstat e w fd = (0, st, w1) \<and> st_dev st = devs e p \<and>
           clock w1 = Suc (clock w) \<and> fds w1 = fds w \<and> fs w1 = fs w \<and>
           trace w1 = trace w @ [Sys (Fstat fd)]"
  using assms
  by (simp add: sys_fstat_def behind_def tick_def issue_def Let_def)



subsection \<open>C8: a move across devices\<close>

lemma Move_cross_device:
  assumes "devs e (Source args) \<noteq> devs e (Destination args)"
    and "Move_body e w args = Some w'"
  shows "failure_shape args (emitted w w') \<and> fs w' = (fs w)(Destination args := None) \<or>
    (\<exists>fsrc. fs w (Source args) = Some fsrc \<and>
       success_shape args (int (length (content fsrc))) True (emitted w w') \<and>
       fs w' = (fs w)(Destination args \<mapsto>
         \<lparr>content = content fsrc,
          mode = (case fs w (Destination args) of
                    None \<Rightarrow> mode fsrc AND NOT (umask e) | Some g \<Rightarrow> mode g)\<rparr>,
         Source args := None))"
  using Move_body_shape[OF assms(2)] assms(1) by blast



subsection \<open>C9: doWrite\<close>

lemma stall_forever:
  assumes "doWrite e w fd data = Some y"
  shows "\<not> (wlimit e = (\<lambda>k. 0) \<and> faults e = (\<lambda>k. None) \<and> data \<noteq> [] \<and>
            (\<exists>p off f. fds w fd = Some (p, off) \<and> fs w p = Some f))"
proof (rule doWrite.raw_induct[where
      P = "\<lambda>e w fd data y. \<not> (wlimit e = (\<lambda>k. 0) \<and> faults e = (\<lambda>k. None) \<and> data \<noteq> [] \<and>
            (\<exists>p off f. fds w fd = Some (p, off) \<and> fs w p = Some f))", OF _ assms])
  fix rec e w fd data y
  assume ih: "\<And>e w fd data y. rec e w fd data = Some y \<Longrightarrow>
      \<not> (wlimit e = (\<lambda>k. 0) \<and> faults e = (\<lambda>k. None) \<and> data \<noteq> [] \<and>
            (\<exists>p off f. fds w fd = Some (p, off) \<and> fs w p = Some f))"
    and body: "(case sys_write e w fd data of
                 (written, w1) \<Rightarrow>
                   if written = - 1 then Some (- 1, w1)
                   else if written < int (length data)
                        then rec e w1 fd (drop (nat written) data)
                        else Some (written, w1)) = Some y"
  show "\<not> (wlimit e = (\<lambda>k. 0) \<and> faults e = (\<lambda>k. None) \<and> data \<noteq> [] \<and>
            (\<exists>p off f. fds w fd = Some (p, off) \<and> fs w p = Some f))"
  proof
    assume a: "wlimit e = (\<lambda>k. 0) \<and> faults e = (\<lambda>k. None) \<and> data \<noteq> [] \<and>
            (\<exists>p off f. fds w fd = Some (p, off) \<and> fs w p = Some f)"
    then obtain p off f where fd: "fds w fd = Some (p, off)" and f: "fs w p = Some f"
      by blast
    obtain written w1 where wr: "sys_write e w fd data = (written, w1)"
      by (cases "sys_write e w fd data")
    from wr a fd f have z: "written = 0" and fd1: "fds w1 fd = Some (p, off)"
      and f1: "fs w1 p = Some f"
      by (auto simp: sys_write_def behind_def tick_def issue_def Let_def)
    from body wr z a have "rec e w1 fd data = Some y" by simp
    from ih[OF this] a fd1 f1 show False by blast
  qed
qed

text \<open>
  C9, as stated, fails: on a write primitive that accepts no byte at any call (each call
  transfers 0 bytes, which is not negative and not more than asked for), \<open>doWrite\<close> on a
  one-byte block never returns.
\<close>

theorem C9_doWrite_stalls:
  "fst (sys_write env_stall w_open 3 [1]) = 0 \<and> doWrite env_stall w_open 3 [1] = None"
proof
  show "fst (sys_write env_stall w_open 3 [1]) = 0"
    by (simp add: sys_write_def env_stall_def env_ok_def w_open_def w_ab_def behind_def
        tick_def issue_def Let_def)
next
  show "doWrite env_stall w_open 3 [1] = None"
  proof (cases "doWrite env_stall w_open 3 [1]")
    case None
    then show ?thesis .
  next
    case (Some y)
    from stall_forever[OF Some] show ?thesis
      by (simp add: env_stall_def env_ok_def w_open_def w_ab_def)
  qed
qed

text \<open>
  C9, amended: when every call of the write primitive that does not fail accepts at least
  one byte (and never more than asked for), \<open>doWrite\<close> returns, whatever the world, the
  descriptor and the block; and when its result is not \<open>-1\<close>, the whole block stands in
  the file at the offset the descriptor had, and the descriptor has moved past it.
\<close>

theorem C9_doWrite_returns:
  assumes "write_progress e"
  shows "\<exists>r w'. doWrite e w fd data = Some (r, w') \<and>
           (r \<noteq> - 1 \<longrightarrow>
              (\<forall>p off f. fds w fd = Some (p, off) \<longrightarrow> fs w p = Some f \<longrightarrow>
                 fs w' p = Some (f\<lparr>content := store_at off data (content f)\<rparr>) \<and>
                 fds w' fd = Some (p, off + length data)))"
proof -
  from doWrite_total[OF assms] obtain r w' where dw: "doWrite e w fd data = Some (r, w')"
    by (metis surj_pair)
  have "fs w' p = Some (f\<lparr>content := store_at off data (content f)\<rparr>) \<and>
        fds w' fd = Some (p, off + length data)"
    if "r \<noteq> - 1" and "fds w fd = Some (p, off)" and "fs w p = Some f" for p off f
    using doWrite_stores[OF dw, of p] that by (auto simp: stores_def)
  with dw show ?thesis by blast
qed

theorem C9_doWrite_returns_witness:
  "write_progress env_ok \<and>
   map_option fst (doWrite env_ok w_open 3 [1, 2, 3]) = Some 1 \<and>
   map_option (\<lambda>y. fs (snd y) ''b'') (doWrite env_ok w_open 3 [1, 2, 3]) =
     Some (Some \<lparr>content = [1, 2, 3], mode = 384\<rparr>) \<and>
   map_option (\<lambda>y. fds (snd y) 3) (doWrite env_ok w_open 3 [1, 2, 3]) = Some (Some (''b'', 3))"
proof -
  have h: "write_progress env_ok" by (simp add: write_progress_def env_ok_def)
  have fd: "fds w_open 3 = Some (''b'', 0)" by (simp add: w_open_def)
  have f: "fs w_open ''b'' = Some \<lparr>content = [9], mode = 384\<rparr>"
    by (simp add: w_open_def w_ab_def)
  have r1: "map_option fst (doWrite env_ok w_open 3 [1, 2, 3]) = Some 1"
    by (simp add: doWrite.simps sys_write_def env_ok_def w_open_def w_ab_def behind_def
        tick_def issue_def Let_def)
  from C9_doWrite_returns[OF h, of w_open 3 "[1, 2, 3]"] obtain r w'
    where dw: "doWrite env_ok w_open 3 [1, 2, 3] = Some (r, w')"
      and full: "r \<noteq> - 1 \<longrightarrow>
              (\<forall>p off f. fds w_open 3 = Some (p, off) \<longrightarrow> fs w_open p = Some f \<longrightarrow>
                 fs w' p = Some (f\<lparr>content := store_at off [1, 2, 3] (content f)\<rparr>) \<and>
                 fds w' 3 = Some (p, off + length [1, 2, 3 :: byte]))"
    by blast
  from r1 dw have "r = 1" by simp
  with full fd f have "fs w' ''b'' = Some \<lparr>content = [1, 2, 3], mode = 384\<rparr>"
    and "fds w' 3 = Some (''b'', 3)"
    by (auto simp: store_at_def)
  with h dw \<open>r = 1\<close> show ?thesis by simp
qed

subsection \<open>C10: a failed move across devices\<close>

text \<open>
  C10: a move between two devices that reports a failure leaves the source file as it
  was and never calls \<open>remove(source)\<close>; in any run of such a move, \<open>remove(source)\<close> is
  issued at most once, directly after the source descriptor was closed and the
  destination was flushed and closed, and directly before the success report.
\<close>

theorem C10_failed_move_keeps_source:
  assumes "devs e (Source args) \<noteq> devs e (Destination args)"
    and "Move_body e w args = Some w'"
  shows "(signals_failure args w w' \<longrightarrow>
            fs w' (Source args) = fs w (Source args) \<and>
            Sys (Remove (Source args)) \<notin> set (emitted w w')) \<and>
         (Sys (Remove (Source args)) \<in> set (emitted w w') \<longrightarrow>
            (\<exists>pre i out. emitted w w' =
                pre @ [Sys (Close i), Sys (Fsync out), Sys (Close out),
                       Sys (Remove (Source args)), success_event args] \<and>
              Sys (Remove (Source args)) \<notin> set pre))"
proof -
  from assms(1) have ne: "Source args \<noteq> Destination args" by auto
  let ?evs = "emitted w w'"
  from Move_cross_device[OF assms] consider
    (fail) "failure_shape args ?evs" "fs w' = (fs w)(Destination args := None)"
    | (good) N where "success_shape args N True ?evs"
    by blast
  then show ?thesis
  proof cases
    case fail
    from fail(1) obtain N pre t where
      evs: "?evs = pre @ [Sys (Remove (Destination args)), failure_event args t]"
      and q: "quiet args N pre"
      unfolding failure_shape_def by blast
    have "Sys (Remove (Source args)) \<notin> set ?evs"
      unfolding evs using quiet_no_remove[OF q] ne by (simp add: failure_event_def)
    moreover have "fs w' (Source args) = fs w (Source args)" using fail(2) ne by simp
    ultimately show ?thesis by simp
  next
    case good
    from good obtain pre i out where
      evs: "?evs = pre @ (if UpdateProgress args then [progress_event args N N] else []) @
          [Sys (Close i), Sys (Fsync out), Sys (Close out)] @
          [Sys (Remove (Source args))] @ [success_event args]"
      and q: "quiet args N pre"
      unfolding success_shape_def by auto
    let ?pre = "pre @ (if UpdateProgress args then [progress_event args N N] else [])"
    have "?evs = ?pre @ [Sys (Close i), Sys (Fsync out), Sys (Close out),
                       Sys (Remove (Source args)), success_event args]"
      using evs by simp
    moreover have "Sys (Remove (Source args)) \<notin> set ?pre"
      using quiet_no_remove[OF q] by (simp add: progress_event_def)
    moreover have "\<not> signals_failure args w w'"
      using no_failure_in_success_shape[OF good] by (simp add: signals_failure_def)
    ultimately show ?thesis by blast
  qed
qed

theorem C10_failed_move_keeps_source_witness:
  "devs env_ok (Source args_ax) \<noteq> devs env_ok (Destination args_ax) \<and>
   (\<exists>w'. Move_body (env_fail 5) w_ab args_ax = Some w' \<and> signals_failure args_ax w_ab w' \<and>
      fs w' ''a'' = Some \<lparr>content = [1, 2, 3], mode = 420\<rparr> \<and>
      Sys (Remove ''a'') \<notin> set (emitted w_ab w'))"
proof -
  have names: "Source args_ax = ''a''" "Destination args_ax = ''x''"
    by (simp_all add: args_ax_def args_ab_def)
  have d: "devs (env_fail 5) (Source args_ax) \<noteq> devs (env_fail 5) (Destination args_ax)"
    by (simp add: env_fail_def env_ok_def names)
  have d': "devs env_ok (Source args_ax) \<noteq> devs env_ok (Destination args_ax)"
    by (simp add: env_ok_def names)
  from run_move_ax_write_fails obtain w' where
    run: "Move_body (env_fail 5) w_ab args_ax = Some w'"
    and em: "emitted w_ab w' = [Sys (Open ''a''), Sys (Fstat 3), Sys (Open ''x''), Sys (Fstat 4),
          Sys (Read 3), Sys (Write 4 3), Sys (Close 3), Sys (Close 4), Sys (Remove ''x''),
          Call 2 [JStr ''Input/output error'', JBool False]]"
    by auto
  have f: "signals_failure args_ax w_ab w'"
    unfolding signals_failure_def em by (simp add: failure_event_def args_ax_def args_ab_def)
  from C10_failed_move_keeps_source[OF d run] f
  have "fs w' ''a'' = fs w_ab ''a''" and "Sys (Remove ''a'') \<notin> set (emitted w_ab w')"
    unfolding names by simp_all
  then have "fs w' ''a'' = Some \<lparr>content = [1, 2, 3], mode = 420\<rparr>"
    and "Sys (Remove ''a'') \<notin> set (emitted w_ab w')"
    by (simp_all add: w_ab_def)
  with d' run f show ?thesis by blast
qed

end
